theory Spec2Isabelle
  imports Complex_Main "HOL-Library.Word"
begin

section \<open>Go values\<close>

text \<open>
  Go's \<open>int\<close> is 64 bits wide on the platforms the tool is built for. Configuration
  numbers are modelled as \<open>int\<close>, and the two products the code computes from them
  (\<open>samplesPerSecond * 2\<close> and the running product of value-list lengths) are wrapped
  into the 64-bit two's-complement range by \<open>wrap64\<close>. Loop indices start at 0 and stay
  below a slice length, so their additions cannot wrap and are left as they are.
  \<open>int64\<close> timestamps are \<open>64 word\<close>, read as signed by \<open>sint\<close>.
\<close>

definition wrap64 :: "int \<Rightarrow> int" where
  "wrap64 x = (x + 2 ^ 63) mod 2 ^ 64 - 2 ^ 63"

datatype go_panic = MakeSliceLenOutOfRange | SliceBoundsOutOfRange | IntegerDivideByZero

text \<open>\<open>fmt.Sprintf("%d", n)\<close>: the decimal digits, with a minus sign for a negative number.\<close>

fun decimal :: "nat \<Rightarrow> string" where
  "decimal n = (if n < 10 then [''0123456789'' ! n]
                else decimal (n div 10) @ [''0123456789'' ! (n mod 10)])"

declare decimal.simps [simp del]

definition Sprintf_d :: "int \<Rightarrow> string" where
  "Sprintf_d n = (if n < 0 then CHR ''-'' # decimal (nat (- n)) else decimal (nat n))"

text \<open>
  A \<open>float64\<close> by its class: a finite number, an infinity or a NaN. \<open>any\<close> is what
  \<open>encoding/json\<close> puts into an \<open>interface{}\<close>.
\<close>

datatype float64 = Finite rat | PosInf | NegInf | NaN

datatype any =
    AnyString string
  | AnyFloat64 float64
  | AnyBool bool
  | AnyNil
  | AnySlice "any list"
  | AnyMap "(string \<times> any) list"

text \<open>
  A Go \<open>map[string]string\<close> is a partial function; \<open>m(k \<mapsto> v)\<close> is the assignment
  \<open>m[k] = v\<close>.
\<close>

type_synonym LabelSet = "string \<rightharpoonup> string"

text \<open>
  Errors are values. \<open>Wrap p e\<close> is \<open>fmt.Errorf("p: %w", e)\<close>; \<open>ExternalError\<close> is an
  error that comes from outside the program (the transport, the context, the limiter,
  a library).
\<close>

datatype error =
    ExternalError string
  | NoValuesProvided
  | NoValidSamplesFound
  | RemoteWriteFailedWithStatus int
  | QueryFailed
  | ReplicationFactorTooSmall
  | QueryRangeHoursTooSmall
  | QueryStepSecondsTooSmall
  | SamplesPerSecondTooSmall
  | BatchSizeTooSmall
  | Wrap string error
  | SendingBatch int int error
  | WritingChunk int error

text \<open>What a call that returns \<open>error\<close> does: it returns (\<open>None\<close> is \<open>nil\<close>) or it panics.\<close>

datatype outcome = Returned "error option" | Panicked go_panic

section \<open>internal/config\<close>

record Prometheus =
  QueryURL :: string
  RemoteWriteURL :: string

record Benchmark =
  ReplicationFactor :: int
  QueryRangeHours :: int
  QueryStepSeconds :: int
  SamplesPerSecond :: int
  BatchSize :: int

record ReplicationLabel =
  Name :: string
  Values :: "string list"

record Config =
  PrometheusCfg :: Prometheus
  BenchmarkCfg :: Benchmark
  Replication :: "ReplicationLabel list"
  ExcludeMetrics :: "string list"
  LogLevel :: string

definition Validate :: "Config \<Rightarrow> error option" where
  "Validate c =
     (if ReplicationFactor (BenchmarkCfg c) < 1 then Some ReplicationFactorTooSmall
      else if QueryRangeHours (BenchmarkCfg c) < 1 then Some QueryRangeHoursTooSmall
      else if QueryStepSeconds (BenchmarkCfg c) < 1 then Some QueryStepSecondsTooSmall
      else if SamplesPerSecond (BenchmarkCfg c) < 1 then Some SamplesPerSecondTooSmall
      else if BatchSize (BenchmarkCfg c) < 1 then Some BatchSizeTooSmall
      else None)"

section \<open>The outside world and the program state\<close>

record Sample =
  Timestamp :: "64 word"
  Value :: float64

text \<open>
  \<open>Labels\<close> is filled by ranging over the label map, in Go's unspecified iteration
  order; the model keeps the map.
\<close>

record TimeSeries =
  Labels :: LabelSet
  Samples :: "Sample list"

text \<open>One entry of a range query's result: the series' labels and its raw value pairs.\<close>

record SeriesResult =
  Metric :: LabelSet
  ResultValues :: "any list list"

text \<open>
  What one remote-write request meets: \<open>Marshal\<close> fails, \<open>http.NewRequestWithContext\<close>
  fails, \<open>client.Do\<close> fails, or a response with a status code arrives.
\<close>

datatype post_outcome =
    MarshalFailed error
  | NewRequestFailed error
  | DoFailed error
  | Response int

text \<open>
  The world outside the program, fixed for a run. Every interaction with it (a clock
  read, a look at the context, a limiter wait, an HTTP request) takes one tick of the
  state's counter, and the world answers by tick. \<open>ParseFloat s\<close> is
  \<open>strconv.ParseFloat(s, 64)\<close> with \<open>None\<close> for a non-nil error; \<open>Compile p\<close> is
  \<open>regexp.Compile(p)\<close>, a compiled expression being its \<open>MatchString\<close>.
\<close>

record env =
  UnixMilli :: "nat \<Rightarrow> 64 word"
  ctxDone :: "nat \<Rightarrow> bool"
  ctxErr :: error
  WaitN :: "nat \<Rightarrow> int \<Rightarrow> error option"
  Post :: "nat \<Rightarrow> TimeSeries list \<Rightarrow> post_outcome"
  discoverResponse :: "nat \<Rightarrow> error + string list"
  queryResponse :: "nat \<Rightarrow> string \<Rightarrow> error + SeriesResult list"
  ParseFloat :: "string \<Rightarrow> float64 option"
  Compile :: "string \<Rightarrow> error + (string \<Rightarrow> bool)"

text \<open>
  What the program does to the world, in order: the requests it sends, the tokens it
  asks the limiter for, and the log lines that report a skipped pattern, a failed
  metric or series, or a dry-run replication. Debug and progress logging is left out.
\<close>

datatype event =
    GetLabelValues
  | GetQueryRange string
  | PostWrite "TimeSeries list"
  | LimiterWaitN int
  | WarnInvalidPattern string error
  | ErrorProcessingMetric string error
  | ErrorReplicatingSeries string error
  | DryRunWouldReplicate string LabelSet nat

section \<open>internal/writer\<close>

record TimestampCoordinator =
  lastTimestamp :: "64 word"
  increment :: "64 word"

text \<open>
  The mutable state: the tick counter, the writer's timestamp coordinator (the one
  object the code mutates behind a pointer) and the trace of events so far.
\<close>

record st =
  ticks :: nat
  coordinator :: TimestampCoordinator
  trace :: "event list"

definition emit :: "event \<Rightarrow> st \<Rightarrow> st" where
  "emit e s = s\<lparr>trace := trace s @ [e]\<rparr>"

definition tick :: "st \<Rightarrow> st" where
  "tick s = s\<lparr>ticks := Suc (ticks s)\<rparr>"

text \<open>The argument is \<open>time.Now().UnixMilli()\<close> at construction.\<close>

definition NewTimestampCoordinator :: "64 word \<Rightarrow> TimestampCoordinator" where
  "NewTimestampCoordinator now = \<lparr>lastTimestamp = now, increment = 1\<rparr>"

text \<open>
  \<open>NextTimestamp\<close> under its mutex is one atomic step on the coordinator; \<open>now\<close> is the
  clock reading inside the critical section.
\<close>

definition NextTimestamp :: "64 word \<Rightarrow> TimestampCoordinator \<Rightarrow> 64 word \<times> TimestampCoordinator" where
  "NextTimestamp now tc =
     (let tc' = (if sint (lastTimestamp tc) < sint now
                 then tc\<lparr>lastTimestamp := now\<rparr>
                 else tc\<lparr>lastTimestamp := lastTimestamp tc + increment tc\<rparr>)
      in (lastTimestamp tc', tc'))"

text \<open>
  A sequence of calls, whoever makes them: the mutex orders them, and \<open>nows\<close> are the
  clock readings the calls see, in that order. \<open>calls\<close> lists the returned values.
\<close>

fun calls :: "64 word list \<Rightarrow> TimestampCoordinator \<Rightarrow> 64 word list" where
  "calls [] tc = []"
| "calls (now # nows) tc = (case NextTimestamp now tc of (t, tc') \<Rightarrow> t # calls nows tc')"

text \<open>
  An auxiliary predicate of the proofs: no call of the sequence adds the increment to
  the largest \<open>int64\<close> (each call either takes the clock reading or finds
  \<open>lastTimestamp\<close> below \<open>2^63 - 1\<close>). No theorem of a claim assumes it; the bound on
  the readings that the theorem of C1 assumes implies it.
\<close>

fun no_wrap :: "64 word list \<Rightarrow> TimestampCoordinator \<Rightarrow> bool" where
  "no_wrap [] tc = True"
| "no_wrap (now # nows) tc =
     ((sint (lastTimestamp tc) < sint now \<or> sint (lastTimestamp tc) < 2 ^ 63 - 1)
      \<and> no_wrap nows (snd (NextTimestamp now tc)))"

record RemoteWriter =
  endpoint :: string
  batchSize :: int

text \<open>The writer's coordinator lives in the state; constructing the writer reads the clock.\<close>

definition NewRemoteWriter :: "env \<Rightarrow> string \<Rightarrow> int \<Rightarrow> st \<Rightarrow> RemoteWriter \<times> st" where
  "NewRemoteWriter w url n s =
     (\<lparr>endpoint = url, batchSize = n\<rparr>,
      tick (s\<lparr>coordinator := NewTimestampCoordinator (UnixMilli w (ticks s))\<rparr>))"

definition coordinatedTimestamp :: "env \<Rightarrow> st \<Rightarrow> 64 word \<times> st" where
  "coordinatedTimestamp w s =
     (case NextTimestamp (UnixMilli w (ticks s)) (coordinator s) of
        (t, tc') \<Rightarrow> (t, tick (s\<lparr>coordinator := tc'\<rparr>)))"

text \<open>The loop of \<open>convertToTimeSeries\<close> over the raw pairs; \<open>samples\<close> is appended to.\<close>

fun convertLoop :: "env \<Rightarrow> any list list \<Rightarrow> Sample list \<Rightarrow> st \<Rightarrow> Sample list \<times> st" where
  "convertLoop w [] samples s = (samples, s)"
| "convertLoop w (v # vs) samples s =
     (if length v \<noteq> 2 then convertLoop w vs samples s
      else case v ! 1 of
        AnyString valueStr \<Rightarrow>
          (case ParseFloat w valueStr of
             None \<Rightarrow> convertLoop w vs samples s
           | Some valueFloat \<Rightarrow>
               (case coordinatedTimestamp w s of
                  (timestamp, s') \<Rightarrow>
                    convertLoop w vs
                      (samples @ [\<lparr>Timestamp = timestamp, Value = valueFloat\<rparr>]) s'))
      | _ \<Rightarrow> convertLoop w vs samples s)"

definition convertToTimeSeries ::
  "env \<Rightarrow> LabelSet \<Rightarrow> any list list \<Rightarrow> st \<Rightarrow> (error + TimeSeries) \<times> st" where
  "convertToTimeSeries w labels vals s =
     (if length vals = 0 then (Inl NoValuesProvided, s)
      else case convertLoop w vals [] s of
        (samples, s') \<Rightarrow>
          if length samples = 0 then (Inl NoValidSamplesFound, s')
          else (Inr \<lparr>Labels = labels, Samples = samples\<rparr>, s'))"

definition sendBatch :: "env \<Rightarrow> RemoteWriter \<Rightarrow> TimeSeries list \<Rightarrow> st \<Rightarrow> error option \<times> st" where
  "sendBatch w rw batch s =
     (case Post w (ticks s) batch of
        MarshalFailed e \<Rightarrow> (Some (Wrap ''marshaling write request'' e), tick s)
      | NewRequestFailed e \<Rightarrow> (Some (Wrap ''creating request'' e), tick s)
      | DoFailed e \<Rightarrow> (Some (Wrap ''sending request'' e), tick (emit (PostWrite batch) s))
      | Response code \<Rightarrow>
          (if code < 200 \<or> code \<ge> 300 then Some (RemoteWriteFailedWithStatus code) else None,
           tick (emit (PostWrite batch) s)))"

text \<open>
  The loop of \<open>sendInBatches\<close> from index \<open>i\<close>. It need not end: with a batch size
  of 0 it sends the empty batch for as long as the sends succeed.
\<close>

partial_function (option) sendInBatchesFrom ::
  "env \<Rightarrow> RemoteWriter \<Rightarrow> TimeSeries list \<Rightarrow> int \<Rightarrow> st \<Rightarrow> (outcome \<times> st) option" where
  "sendInBatchesFrom w rw timeSeries i s =
     (if i < int (length timeSeries) then
        (let e = (if i + batchSize rw > int (length timeSeries)
                  then int (length timeSeries) else i + batchSize rw)
         in if e < i then Some (Panicked SliceBoundsOutOfRange, s)
            else (case sendBatch w rw (take (nat (e - i)) (drop (nat i) timeSeries)) s of
                    (Some err, s') \<Rightarrow> Some (Returned (Some (SendingBatch i e err)), s')
                  | (None, s') \<Rightarrow> sendInBatchesFrom w rw timeSeries (i + batchSize rw) s'))
      else Some (Returned None, s))"

definition sendInBatches ::
  "env \<Rightarrow> RemoteWriter \<Rightarrow> TimeSeries list \<Rightarrow> st \<Rightarrow> (outcome \<times> st) option" where
  "sendInBatches w rw timeSeries s = sendInBatchesFrom w rw timeSeries 0 s"


definition WriteBatch ::
  "env \<Rightarrow> RemoteWriter \<Rightarrow> TimeSeries list \<Rightarrow> st \<Rightarrow> (outcome \<times> st) option" where
  "WriteBatch w rw timeSeries s = sendInBatches w rw timeSeries s"

section \<open>internal/benchmarker\<close>

record Benchmarker =
  config :: Config
  dryRun :: bool
  excludeRegexes :: "(string \<Rightarrow> bool) list"
  remoteWriter :: "RemoteWriter option"

text \<open>The loop of \<open>NewBenchmarker\<close> over the exclude patterns.\<close>

fun compilePatterns ::
  "env \<Rightarrow> string list \<Rightarrow> (string \<Rightarrow> bool) list \<Rightarrow> st \<Rightarrow> (string \<Rightarrow> bool) list \<times> st" where
  "compilePatterns w [] regexes s = (regexes, s)"
| "compilePatterns w (pattern # patterns) regexes s =
     (case Compile w pattern of
        Inl err \<Rightarrow> compilePatterns w patterns regexes (emit (WarnInvalidPattern pattern err) s)
      | Inr regex \<Rightarrow> compilePatterns w patterns (regexes @ [regex]) s)"

text \<open>
  \<open>NewRemoteWriter\<close> never returns nil, so the constructor's error return is dead code
  and the model returns the \<open>Benchmarker\<close>.
\<close>

definition NewBenchmarker :: "env \<Rightarrow> Config \<Rightarrow> bool \<Rightarrow> st \<Rightarrow> Benchmarker \<times> st" where
  "NewBenchmarker w cfg dry s =
     (case compilePatterns w (ExcludeMetrics cfg) [] s of
        (regexes, s1) \<Rightarrow>
          if \<not> dry then
            (case NewRemoteWriter w (RemoteWriteURL (PrometheusCfg cfg)) (BatchSize (BenchmarkCfg cfg)) s1 of
               (rw, s2) \<Rightarrow>
                 (\<lparr>config = cfg, dryRun = dry, excludeRegexes = regexes, remoteWriter = Some rw\<rparr>, s2))
          else (\<lparr>config = cfg, dryRun = dry, excludeRegexes = regexes, remoteWriter = None\<rparr>, s1))"


text \<open>The inner loop of \<open>filterMetrics\<close>: it stops at the first expression that matches.\<close>

fun excluded :: "(string \<Rightarrow> bool) list \<Rightarrow> string \<Rightarrow> bool" where
  "excluded [] metric = False"
| "excluded (regex # regexes) metric = (if regex metric then True else excluded regexes metric)"

fun filterLoop :: "(string \<Rightarrow> bool) list \<Rightarrow> string list \<Rightarrow> string list \<Rightarrow> string list" where
  "filterLoop regexes [] filtered = filtered"
| "filterLoop regexes (metric # metrics) filtered =
     (if \<not> excluded regexes metric then filterLoop regexes metrics (filtered @ [metric])
      else filterLoop regexes metrics filtered)"

definition filterMetrics :: "Benchmarker \<Rightarrow> string list \<Rightarrow> string list" where
  "filterMetrics b metrics = filterLoop (excludeRegexes b) metrics []"


subsection \<open>generateLabelCombinations\<close>

definition autoValues :: "int \<Rightarrow> string list" where
  "autoValues replicationFactor =
     map (\<lambda>j. ''bench-'' @ Sprintf_d (int j + 1)) [0..<nat replicationFactor]"

text \<open>
  The copy of the configured labels with \<open>benchmark_instance\<close> filled in. The
  \<open>make\<close> of the fill panics on a negative replication factor;
  \<open>generateLabelCombinations\<close> checks for that before it uses this copy.
\<close>

definition processedLabels :: "int \<Rightarrow> ReplicationLabel list \<Rightarrow> ReplicationLabel list" where
  "processedLabels replicationFactor labels =
     map (\<lambda>labelConfig.
            if Name labelConfig = ''benchmark_instance'' \<and> length (Values labelConfig) = 0
            then labelConfig\<lparr>Values := autoValues replicationFactor\<rparr>
            else labelConfig) labels"

text \<open>The running product, a Go \<open>int\<close>: every multiplication wraps.\<close>

fun totalCombinations :: "ReplicationLabel list \<Rightarrow> int \<Rightarrow> int" where
  "totalCombinations [] n = n"
| "totalCombinations (labelConfig # labels) n =
     (if length (Values labelConfig) > 0
      then totalCombinations labels (wrap64 (n * int (length (Values labelConfig))))
      else totalCombinations labels n)"

text \<open>
  The inner loop that builds one label set. \<open>combIndex\<close> starts at the loop index
  \<open>i \<ge> 0\<close> and is only divided, so it is a \<open>nat\<close>, and \<open>valueIndex\<close> is in range.
\<close>

fun assignLabels :: "ReplicationLabel list \<Rightarrow> nat \<Rightarrow> LabelSet \<Rightarrow> LabelSet" where
  "assignLabels [] combIndex labelSet = labelSet"
| "assignLabels (labelConfig # labels) combIndex labelSet =
     (if length (Values labelConfig) > 0
      then assignLabels labels (combIndex div length (Values labelConfig))
             (labelSet(Name labelConfig \<mapsto>
                Values labelConfig ! (combIndex mod length (Values labelConfig))))
      else assignLabels labels combIndex labelSet)"

definition generateLabelCombinations :: "Benchmarker \<Rightarrow> go_panic + LabelSet list" where
  "generateLabelCombinations b =
     (let replicationFactor = ReplicationFactor (BenchmarkCfg (config b));
          labels = Replication (config b)
      in if length labels = 0 then
           (if replicationFactor < 0 then Inl MakeSliceLenOutOfRange
            else Inr (map (\<lambda>i. [''benchmark_replica'' \<mapsto> ''replica-'' @ Sprintf_d (int i)])
                       [0..<nat replicationFactor]))
         else if replicationFactor < 0 \<and>
                 list_ex (\<lambda>labelConfig. Name labelConfig = ''benchmark_instance''
                                        \<and> length (Values labelConfig) = 0) labels
         then Inl MakeSliceLenOutOfRange
         else
           (let processed = processedLabels replicationFactor labels;
                n = totalCombinations processed 1;
                maxCombinations = (if replicationFactor > n then n else replicationFactor)
            in Inr (map (\<lambda>i. assignLabels processed i Map.empty) [0..<nat maxCombinations])))"

subsection \<open>Sending\<close>






subsection \<open>The pipeline\<close>






section \<open>Notions of the specification\<close>

text \<open>
  The product of the non-empty value-list lengths of a list of labels, and the product
  of the value-list lengths of the entries before entry \<open>k\<close> (the radix prefix).
\<close>

definition nonEmptyProduct :: "ReplicationLabel list \<Rightarrow> int" where
  "nonEmptyProduct labels =
     prod_list (map (\<lambda>l. int (length (Values l))) (filter (\<lambda>l. Values l \<noteq> []) labels))"

definition radixPrefix :: "ReplicationLabel list \<Rightarrow> nat \<Rightarrow> nat" where
  "radixPrefix labels k = prod_list (map (\<lambda>l. length (Values l)) (take k labels))"

text \<open>
  Fixtures for the examples: a dry-run \<open>Benchmarker\<close> with the defaults of
  \<open>setDefaults\<close> and a given replication factor and label list, and a list of \<open>n\<close>
  labels of two values each.
\<close>

definition benchmarkerWith :: "int \<Rightarrow> ReplicationLabel list \<Rightarrow> Benchmarker" where
  "benchmarkerWith replicationFactor labels =
     \<lparr>config = \<lparr>PrometheusCfg = \<lparr>QueryURL = ''http://localhost:9090'',
                                  RemoteWriteURL = ''http://localhost:9090/api/v1/write''\<rparr>,
                 BenchmarkCfg = \<lparr>ReplicationFactor = replicationFactor, QueryRangeHours = 24,
                                 QueryStepSeconds = 60, SamplesPerSecond = 1000, BatchSize = 100\<rparr>,
                 Replication = labels, ExcludeMetrics = [], LogLevel = []\<rparr>,
      dryRun = True, excludeRegexes = [], remoteWriter = None\<rparr>"

definition binaryLabels :: "nat \<Rightarrow> ReplicationLabel list" where
  "binaryLabels n = map (\<lambda>i. \<lparr>Name = ''shard'' @ decimal i, Values = [''a'', ''b'']\<rparr>) [0..<n]"


text \<open>
  What converts: a raw pair of exactly two elements whose second element is a string
  that \<open>ParseFloat\<close> accepts, with the parsed number.
\<close>

definition convertible :: "env \<Rightarrow> any list \<Rightarrow> float64 option" where
  "convertible w v =
     (if length v = 2 then (case v ! 1 of AnyString s \<Rightarrow> ParseFloat w s | _ \<Rightarrow> None) else None)"

text \<open>
  A world for the examples. Its \<open>ParseFloat\<close> and \<open>Compile\<close> give the answers of
  \<open>strconv.ParseFloat\<close> and \<open>regexp.Compile\<close> on the strings the examples use:
  \<open>"3.14"\<close> parses to a finite number; \<open>"NaN"\<close>, \<open>"+Inf"\<close> and \<open>"-Inf"\<close> parse, with a nil
  error, to the special values; \<open>"^go_"\<close> compiles to a test of the prefix. On every
  other string they answer with an error, as they do on \<open>"not-a-number"\<close> and
  \<open>"[unclosed"\<close>. The clock stands still, nothing is cancelled, the limiter never
  refuses and every write is answered with status 200.
\<close>

definition exampleWorld :: env where
  "exampleWorld =
     \<lparr>UnixMilli = (\<lambda>t. 1700000000000),
      ctxDone = (\<lambda>t. False),
      ctxErr = ExternalError ''context canceled'',
      WaitN = (\<lambda>t n. None),
      Post = (\<lambda>t batch. Response 200),
      discoverResponse = (\<lambda>t. Inr [''go_memstats_alloc_bytes'', ''http_requests_total'']),
      queryResponse = (\<lambda>t metricName.
         Inr [\<lparr>Metric = [''__name__'' \<mapsto> metricName, ''job'' \<mapsto> ''api''],
               ResultValues = [[AnyFloat64 (Finite 1234567890), AnyString ''3.14'']]\<rparr>]),
      ParseFloat = (\<lambda>s. if s = ''3.14'' then Some (Finite (157 / 50))
                         else if s = ''NaN'' then Some NaN
                         else if s = ''+Inf'' then Some PosInf
                         else if s = ''-Inf'' then Some NegInf
                         else None),
      Compile = (\<lambda>p. if p = ''^go_'' then Inr (\<lambda>s. take 3 s = ''go_'')
                      else Inl (ExternalError ''error parsing regexp''))\<rparr>"

definition initialState :: st where
  "initialState = \<lparr>ticks = 0, coordinator = NewTimestampCoordinator 1700000000000, trace = []\<rparr>"

text \<open>The default configuration with the given exclude patterns.\<close>

definition configWith :: "string list \<Rightarrow> Config" where
  "configWith patterns = (config (benchmarkerWith 2 []))\<lparr>ExcludeMetrics := patterns\<rparr>"


text \<open>
  Batching: batch \<open>j\<close> of a list cut into batches of \<open>n\<close> is the \<open>n\<close> elements from
  index \<open>j * n\<close> (fewer at the end of the list), and a list of \<open>len\<close> elements has
  \<open>batchCount n len\<close> batches. \<open>writeError\<close> is the error of one remote-write request by
  what it met (a failure before or in the transport, or a status outside [200, 300)),
  \<open>requested\<close> says whether the request went out, and \<open>sentBatches w n ts t j m\<close> are the
  write events of the \<open>m\<close> batches from batch \<open>j\<close> on, the first of them at tick \<open>t\<close>.
\<close>

definition batchAt :: "nat \<Rightarrow> 'a list \<Rightarrow> nat \<Rightarrow> 'a list" where
  "batchAt n xs j = take n (drop (j * n) xs)"

definition batchCount :: "nat \<Rightarrow> nat \<Rightarrow> nat" where
  "batchCount n len = (len + n - 1) div n"

definition writeError :: "post_outcome \<Rightarrow> error option" where
  "writeError out =
     (case out of
        MarshalFailed e \<Rightarrow> Some (Wrap ''marshaling write request'' e)
      | NewRequestFailed e \<Rightarrow> Some (Wrap ''creating request'' e)
      | DoFailed e \<Rightarrow> Some (Wrap ''sending request'' e)
      | Response code \<Rightarrow>
          if code < 200 \<or> code \<ge> 300 then Some (RemoteWriteFailedWithStatus code) else None)"

definition requested :: "post_outcome \<Rightarrow> bool" where
  "requested out = (case out of DoFailed e \<Rightarrow> True | Response code \<Rightarrow> True | _ \<Rightarrow> False)"

definition sentBatches :: "env \<Rightarrow> nat \<Rightarrow> TimeSeries list \<Rightarrow> nat \<Rightarrow> nat \<Rightarrow> nat \<Rightarrow> event list" where
  "sentBatches w n ts t j m =
     concat (map (\<lambda>k. if requested (Post w (t + k) (batchAt n ts (j + k)))
                      then [PostWrite (batchAt n ts (j + k))] else []) [0..<m])"

text \<open>A world in which every write is answered with status 500, and a series for the examples.\<close>

definition failingWorld :: env where
  "failingWorld = exampleWorld\<lparr>Post := (\<lambda>t batch. Response 500)\<rparr>"

definition seriesNamed :: "string \<Rightarrow> TimeSeries" where
  "seriesNamed name = \<lparr>Labels = [''__name__'' \<mapsto> name],
                        Samples = [\<lparr>Timestamp = 1700000000001, Value = Finite 1\<rparr>]\<rparr>"








section \<open>The timestamp coordinator\<close>

lemma sint_succ:
  fixes x :: "64 word"
  assumes "sint x < 2 ^ 63 - 1"
  shows "sint (x + 1) = sint x + 1"
proof -
  have lo: "- (2 ^ 63) \<le> sint x"
    using sint_ge [of x] by simp
  have "sint (x + 1) = signed_take_bit 63 (sint x + 1)"
    by (simp add: sint_word_ariths)
  also have "\<dots> = sint x + 1"
    using lo assms by (simp add: signed_take_bit_int_eq_self)
  finally show ?thesis .
qed

lemma NextTimestamp_fst:
  "fst (NextTimestamp now tc) =
     (if sint (lastTimestamp tc) < sint now then now else lastTimestamp tc + increment tc)"
  by (simp add: NextTimestamp_def Let_def)

lemma NextTimestamp_state:
  "lastTimestamp (snd (NextTimestamp now tc)) = fst (NextTimestamp now tc)"
  "increment (snd (NextTimestamp now tc)) = increment tc"
  by (simp_all add: NextTimestamp_def Let_def)

lemma NextTimestamp_greater:
  assumes "increment tc = 1"
    and "sint (lastTimestamp tc) < sint now \<or> sint (lastTimestamp tc) < 2 ^ 63 - 1"
  shows "sint (lastTimestamp tc) < sint (fst (NextTimestamp now tc))"
  using assms by (auto simp: NextTimestamp_fst sint_succ)

lemma calls_above:
  assumes "increment tc = 1" and "no_wrap nows tc"
  shows "\<forall>t \<in> set (calls nows tc). sint (lastTimestamp tc) < sint t"
  using assms
proof (induction nows arbitrary: tc)
  case Nil
  then show ?case by simp
next
  case (Cons now nows)
  let ?r = "NextTimestamp now tc"
  have step: "sint (lastTimestamp tc) < sint (fst ?r)"
    using Cons.prems by (intro NextTimestamp_greater) auto
  have inc: "increment (snd ?r) = 1"
    using Cons.prems by (simp add: NextTimestamp_state)
  have rest: "\<forall>t \<in> set (calls nows (snd ?r)). sint (lastTimestamp (snd ?r)) < sint t"
    using Cons.IH [OF inc] Cons.prems by simp
  show ?case
    using step rest by (auto simp: split_beta NextTimestamp_state)
qed

lemma calls_sorted:
  assumes "increment tc = 1" and "no_wrap nows tc"
  shows "sorted_wrt (\<lambda>a b. sint a < sint b) (calls nows tc)"
  using assms
proof (induction nows arbitrary: tc)
  case Nil
  then show ?case by simp
next
  case (Cons now nows)
  let ?r = "NextTimestamp now tc"
  have inc: "increment (snd ?r) = 1"
    using Cons.prems by (simp add: NextTimestamp_state)
  have nw: "no_wrap nows (snd ?r)"
    using Cons.prems by simp
  have "\<forall>t \<in> set (calls nows (snd ?r)). sint (fst ?r) < sint t"
    using calls_above [OF inc nw] by (simp add: NextTimestamp_state)
  moreover have "sorted_wrt (\<lambda>a b. sint a < sint b) (calls nows (snd ?r))"
    using Cons.IH [OF inc nw] .
  ultimately show ?case
    by (simp add: split_beta)
qed

lemma bounded_no_wrap:
  assumes "increment tc = 1"
    and "sint (lastTimestamp tc) + int (length nows) \<le> 2 ^ 63 - 1"
    and "\<forall>n \<in> set nows. sint n + int (length nows) \<le> 2 ^ 63 - 1"
  shows "no_wrap nows tc"
  using assms
proof (induction nows arbitrary: tc)
  case Nil
  then show ?case by simp
next
  case (Cons now nows)
  let ?r = "NextTimestamp now tc"
  have below: "sint (lastTimestamp tc) < 2 ^ 63 - 1"
    using Cons.prems(2) by simp
  have inc: "increment (snd ?r) = 1"
    using Cons.prems(1) by (simp add: NextTimestamp_state)
  have "sint (fst ?r) + int (length nows) \<le> 2 ^ 63 - 1"
  proof (cases "sint (lastTimestamp tc) < sint now")
    case True
    then show ?thesis using Cons.prems(3) by (simp add: NextTimestamp_fst)
  next
    case False
    then show ?thesis
      using Cons.prems(1,2) below by (simp add: NextTimestamp_fst sint_succ)
  qed
  then have a: "sint (lastTimestamp (snd ?r)) + int (length nows) \<le> 2 ^ 63 - 1"
    by (simp add: NextTimestamp_state)
  have b: "\<forall>n \<in> set nows. sint n + int (length nows) \<le> 2 ^ 63 - 1"
    using Cons.prems(3) by auto
  from Cons.IH [OF inc a b] below show ?case by simp
qed

text \<open>
  C1, as stated, fails at the top of the \<open>int64\<close> range. A coordinator made at clock
  reading 0 is called twice, the first call seeing the reading \<open>2^63 - 1\<close> and the second
  the reading 0: the first call returns \<open>2^63 - 1\<close>, the second adds the increment to it
  and returns \<open>-2^63\<close>, which is smaller.
\<close>

theorem NextTimestamp_wraps_counterexample:
  "calls [0x7FFFFFFFFFFFFFFF, 0] (NewTimestampCoordinator 0)
     = [0x7FFFFFFFFFFFFFFF, 0x8000000000000000]
   \<and> sint (0x7FFFFFFFFFFFFFFF :: 64 word) = 9223372036854775807
   \<and> sint (0x8000000000000000 :: 64 word) = - 9223372036854775808"
  by (simp add: NewTimestampCoordinator_def NextTimestamp_def)

text \<open>
  C1, amended. A coordinator made by \<open>NewTimestampCoordinator\<close> at clock reading \<open>t0\<close> is
  called \<open>length nows\<close> times, the calls seeing the clock readings \<open>nows\<close> (in the order
  the mutex gives them; the readings need not increase). If the starting reading and
  every later reading lie at least as many milliseconds below the largest \<open>int64\<close> as
  there are calls, then the starting value followed by the returned values is strictly
  increasing as signed numbers: each call returns more than every value returned before
  it. Each call returns the clock reading when that exceeds \<open>lastTimestamp\<close> and
  \<open>lastTimestamp + increment\<close> otherwise, and the increment is 1.
\<close>

theorem NextTimestamp_strictly_increasing:
  assumes "sint t0 + int (length nows) \<le> 2 ^ 63 - 1"
    and "\<forall>n \<in> set nows. sint n + int (length nows) \<le> 2 ^ 63 - 1"
  shows "sorted_wrt (\<lambda>a b. sint a < sint b) (t0 # calls nows (NewTimestampCoordinator t0))
       \<and> (\<forall>now tc. fst (NextTimestamp now tc) =
            (if sint (lastTimestamp tc) < sint now then now
             else lastTimestamp tc + increment tc))
       \<and> increment (NewTimestampCoordinator t0) = 1"
proof -
  have inc: "increment (NewTimestampCoordinator t0) = 1"
    by (simp add: NewTimestampCoordinator_def)
  have nw: "no_wrap nows (NewTimestampCoordinator t0)"
    using assms by (intro bounded_no_wrap [OF inc]) (simp_all add: NewTimestampCoordinator_def)
  have "\<forall>t \<in> set (calls nows (NewTimestampCoordinator t0)). sint t0 < sint t"
    using calls_above [OF inc nw] by (simp add: NewTimestampCoordinator_def)
  then show ?thesis
    using calls_sorted [OF inc nw] inc by (simp add: NextTimestamp_fst)
qed

text \<open>
  The clock stalls and runs backwards (readings 5, 3, 3, 10, 2 after a start at 4): the
  returned values are 5, 6, 7, 10, 11.
\<close>

theorem NextTimestamp_strictly_increasing_witness:
  "calls [5, 3, 3, 10, 2] (NewTimestampCoordinator 4) = [5, 6, 7, 10, 11]
   \<and> sorted_wrt (\<lambda>a b. sint a < sint b) (4 # calls [5, 3, 3, 10, 2] (NewTimestampCoordinator 4))"
proof -
  have h1: "sint (4 :: 64 word) + int (length [5, 3, 3, 10, 2 :: 64 word]) \<le> 2 ^ 63 - 1"
    by simp
  have h2: "\<forall>n \<in> set [5, 3, 3, 10, 2 :: 64 word].
              sint n + int (length [5, 3, 3, 10, 2 :: 64 word]) \<le> 2 ^ 63 - 1"
    by simp
  have c: "calls [5, 3, 3, 10, 2] (NewTimestampCoordinator 4) = [5, 6, 7, 10, 11]"
    by (simp add: NewTimestampCoordinator_def NextTimestamp_def)
  from NextTimestamp_strictly_increasing [OF h1 h2] c show ?thesis
    by blast
qed

section \<open>Label combinations\<close>

lemma wrap64_id: "- (2 ^ 63) \<le> x \<Longrightarrow> x < 2 ^ 63 \<Longrightarrow> wrap64 x = x"
  by (simp add: wrap64_def)

lemma nonEmptyProduct_pos: "1 \<le> nonEmptyProduct ls"
proof (induction ls)
  case Nil
  then show ?case by (simp add: nonEmptyProduct_def)
next
  case (Cons l ls)
  show ?case
  proof (cases "Values l = []")
    case True
    with Cons show ?thesis by (simp add: nonEmptyProduct_def)
  next
    case False
    then have "1 \<le> int (length (Values l))" by (cases "Values l") auto
    then have "1 * 1 \<le> int (length (Values l)) * nonEmptyProduct ls"
      using Cons by (intro mult_mono) auto
    with False show ?thesis by (simp add: nonEmptyProduct_def)
  qed
qed

lemma nonEmptyProduct_Cons:
  "nonEmptyProduct (l # ls) =
     (if Values l = [] then nonEmptyProduct ls else int (length (Values l)) * nonEmptyProduct ls)"
  by (simp add: nonEmptyProduct_def)

lemma totalCombinations_exact:
  assumes "1 \<le> n" and "n * nonEmptyProduct ls < 2 ^ 63"
  shows "totalCombinations ls n = n * nonEmptyProduct ls"
  using assms
proof (induction ls arbitrary: n)
  case Nil
  then show ?case by (simp add: nonEmptyProduct_def)
next
  case (Cons l ls)
  show ?case
  proof (cases "Values l = []")
    case True
    with Cons show ?thesis by (simp add: nonEmptyProduct_Cons)
  next
    case False
    let ?k = "int (length (Values l))"
    have k: "1 \<le> ?k" using False by (cases "Values l") auto
    have nk: "1 \<le> n * ?k" using Cons.prems(1) k
      by (metis mult_mono mult_1 zero_le_one order_trans)
    have "n * ?k * 1 \<le> n * ?k * nonEmptyProduct ls"
      using nk nonEmptyProduct_pos [of ls] by (intro mult_left_mono) auto
    also have "\<dots> < 2 ^ 63"
      using Cons.prems(2) False by (simp add: nonEmptyProduct_Cons mult.assoc)
    finally have small: "n * ?k < 2 ^ 63" by simp
    have w: "wrap64 (n * ?k) = n * ?k"
      using nk small by (intro wrap64_id) auto
    have "totalCombinations ls (n * ?k) = n * ?k * nonEmptyProduct ls"
      using Cons.prems(2) False nk
      by (intro Cons.IH) (simp_all add: nonEmptyProduct_Cons mult.assoc)
    with False w show ?thesis
      by (simp add: nonEmptyProduct_Cons mult.assoc)
  qed
qed

lemma assignLabels_source:
  "assignLabels ls i m k = Some v \<Longrightarrow>
     m k = Some v \<or> (\<exists>l \<in> set ls. Name l = k \<and> v \<in> set (Values l))"
proof (induction ls arbitrary: i m)
  case Nil
  then show ?case by simp
next
  case (Cons l ls)
  show ?case
  proof (cases "Values l = []")
    case True
    with Cons show ?thesis by auto
  next
    case False
    let ?m = "m(Name l \<mapsto> Values l ! (i mod length (Values l)))"
    from Cons.prems False
    have "assignLabels ls (i div length (Values l)) ?m k = Some v" by simp
    from Cons.IH [OF this]
    have "?m k = Some v \<or> (\<exists>l \<in> set ls. Name l = k \<and> v \<in> set (Values l))" .
    moreover have "Values l ! (i mod length (Values l)) \<in> set (Values l)"
      using False by simp
    ultimately show ?thesis
      by (auto split: if_splits)
  qed
qed

lemma assignLabels_untouched:
  "\<forall>l \<in> set ls. Name l = k \<longrightarrow> Values l = [] \<Longrightarrow> assignLabels ls i m k = m k"
  by (induction ls arbitrary: i m) auto

lemma assignLabels_present:
  "\<exists>l \<in> set ls. Name l = k \<and> Values l \<noteq> [] \<Longrightarrow> assignLabels ls i m k \<noteq> None"
proof (induction ls arbitrary: i m)
  case Nil
  then show ?case by simp
next
  case (Cons l ls)
  show ?case
  proof (cases "\<exists>l \<in> set ls. Name l = k \<and> Values l \<noteq> []")
    case True
    then show ?thesis using Cons.IH by auto
  next
    case False
    then have u: "\<forall>l \<in> set ls. Name l = k \<longrightarrow> Values l = []" by auto
    from False Cons.prems have "Name l = k" "Values l \<noteq> []" by auto
    then show ?thesis
      by (simp add: assignLabels_untouched [OF u])
  qed
qed

lemma radixPrefix_simps:
  "radixPrefix ls 0 = 1"
  "radixPrefix (l # ls) (Suc k) = length (Values l) * radixPrefix ls k"
  by (simp_all add: radixPrefix_def)

lemma assignLabels_nth:
  assumes "\<forall>l \<in> set ls. Values l \<noteq> []" and "k < length ls"
    and "\<forall>j. k < j \<and> j < length ls \<longrightarrow> Name (ls ! j) \<noteq> Name (ls ! k)"
  shows "assignLabels ls i m (Name (ls ! k)) =
           Some (Values (ls ! k) ! ((i div radixPrefix ls k) mod length (Values (ls ! k))))"
  using assms
proof (induction ls arbitrary: i m k)
  case Nil
  then show ?case by simp
next
  case (Cons l ls)
  have ne: "Values l \<noteq> []" using Cons.prems(1) by simp
  show ?case
  proof (cases k)
    case 0
    have "\<forall>l' \<in> set ls. Name l' \<noteq> Name l"
    proof
      fix l' assume "l' \<in> set ls"
      then obtain j where "j < length ls" "ls ! j = l'"
        by (auto simp: in_set_conv_nth)
      with Cons.prems(3) [rule_format, of "Suc j"] 0 show "Name l' \<noteq> Name l"
        by auto
    qed
    then have "\<forall>l' \<in> set ls. Name l' = Name l \<longrightarrow> Values l' = []" by auto
    from assignLabels_untouched [OF this] ne 0 show ?thesis
      by (simp add: radixPrefix_simps)
  next
    case (Suc k')
    have a: "\<forall>l \<in> set ls. Values l \<noteq> []" using Cons.prems(1) by simp
    have b: "k' < length ls" using Cons.prems(2) Suc by simp
    have c: "\<forall>j. k' < j \<and> j < length ls \<longrightarrow> Name (ls ! j) \<noteq> Name (ls ! k')"
    proof (intro allI impI)
      fix j assume "k' < j \<and> j < length ls"
      with Cons.prems(3) [rule_format, of "Suc j"] Suc show "Name (ls ! j) \<noteq> Name (ls ! k')"
        by auto
    qed
    from Cons.IH [OF a b c] ne Suc show ?thesis
      by (simp add: radixPrefix_simps div_mult2_eq)
  qed
qed

lemma processedLabels_nonempty:
  "\<forall>l \<in> set ls. Values l \<noteq> [] \<Longrightarrow> processedLabels rf ls = ls"
  by (induction ls) (auto simp: processedLabels_def)

lemma generateLabelCombinations_nonempty_spec:
  assumes "Replication (config b) \<noteq> []"
    and "0 \<le> ReplicationFactor (BenchmarkCfg (config b))
         \<or> (\<forall>l \<in> set (Replication (config b)). Values l \<noteq> [])"
  shows "generateLabelCombinations b =
     Inr (map (\<lambda>i. assignLabels (processedLabels (ReplicationFactor (BenchmarkCfg (config b)))
                                  (Replication (config b))) i Map.empty)
            [0..<nat (min (ReplicationFactor (BenchmarkCfg (config b)))
                          (totalCombinations
                             (processedLabels (ReplicationFactor (BenchmarkCfg (config b)))
                                (Replication (config b))) 1))])"
proof -
  have "\<not> (ReplicationFactor (BenchmarkCfg (config b)) < 0 \<and>
          list_ex (\<lambda>labelConfig. Name labelConfig = ''benchmark_instance''
                                 \<and> length (Values labelConfig) = 0) (Replication (config b)))"
    using assms(2) by (auto simp: list_ex_iff)
  then show ?thesis
    using assms(1) by (auto simp: generateLabelCombinations_def Let_def min_def)
qed

lemma totalCombinations_skip:
  "Values e = [] \<Longrightarrow> totalCombinations (xs @ e # ys) n = totalCombinations (xs @ ys) n"
  by (induction xs arbitrary: n) auto

lemma assignLabels_skip:
  "Values e = [] \<Longrightarrow> assignLabels (xs @ e # ys) i m = assignLabels (xs @ ys) i m"
  by (induction xs arbitrary: i m) auto

lemma processedLabels_append:
  "processedLabels rf (xs @ ys) = processedLabels rf xs @ processedLabels rf ys"
  by (simp add: processedLabels_def)

lemma processedLabels_keep:
  "Name e \<noteq> ''benchmark_instance'' \<Longrightarrow> processedLabels rf (e # ys) = e # processedLabels rf ys"
  by (simp add: processedLabels_def)

lemma processedLabels_nth:
  "k < length ls \<Longrightarrow> processedLabels rf ls ! k =
     (if Name (ls ! k) = ''benchmark_instance'' \<and> Values (ls ! k) = []
      then (ls ! k)\<lparr>Values := autoValues rf\<rparr> else ls ! k)"
  by (simp add: processedLabels_def)

lemma processedLabels_other:
  assumes "n \<noteq> ''benchmark_instance''" and "l \<in> set (processedLabels rf ls)" and "Name l = n"
  shows "l \<in> set ls"
  using assms by (auto simp: processedLabels_def split: if_splits)

lemma autoValues_nonempty: "1 \<le> rf \<Longrightarrow> autoValues rf \<noteq> []"
  by (simp add: autoValues_def)

lemma length_autoValues: "length (autoValues rf) = nat rf"
  by (simp add: autoValues_def)

lemma totalCombinations_binaryLabels: "totalCombinations (binaryLabels 63) 1 = - (2 ^ 63)"
  by code_simp

lemma nonEmptyProduct_binaryLabels: "nonEmptyProduct (binaryLabels 63) = 2 ^ 63"
  by code_simp

lemma generateLabelCombinations_length:
  assumes "Replication (config b) \<noteq> []"
    and "1 \<le> ReplicationFactor (BenchmarkCfg (config b))"
    and "nonEmptyProduct (processedLabels (ReplicationFactor (BenchmarkCfg (config b)))
                            (Replication (config b))) < 2 ^ 63"
    and "generateLabelCombinations b = Inr cs"
  shows "int (length cs) =
           min (ReplicationFactor (BenchmarkCfg (config b)))
               (nonEmptyProduct (processedLabels (ReplicationFactor (BenchmarkCfg (config b)))
                                   (Replication (config b))))"
proof -
  let ?rf = "ReplicationFactor (BenchmarkCfg (config b))"
  let ?ps = "processedLabels ?rf (Replication (config b))"
  have tot: "totalCombinations ?ps 1 = nonEmptyProduct ?ps"
    using totalCombinations_exact [of 1 ?ps] assms(3) by simp
  have "generateLabelCombinations b =
          Inr (map (\<lambda>i. assignLabels ?ps i Map.empty) [0..<nat (min ?rf (nonEmptyProduct ?ps))])"
    using generateLabelCombinations_nonempty_spec [of b] assms(1,2) tot by simp
  with assms(4) have "length cs = nat (min ?rf (nonEmptyProduct ?ps))"
    by auto
  then show ?thesis
    using assms(2) nonEmptyProduct_pos [of ?ps] by simp
qed

text \<open>
  C2, as stated, fails in three places. With no labels configured and a replication
  factor of 2 there are two combinations, while the product over no value list is 1 and
  the minimum is 1. A \<open>benchmark_instance\<close> entry with no values is filled in before the
  product is taken: with a replication factor of 3 there are three combinations, with
  values that are not drawn from the (empty) configured list. And the product is a Go
  \<open>int\<close>: 63 labels of two values each multiply to \<open>2^63\<close>, which wraps to \<open>-2^63\<close>, and
  no combination is produced for any replication factor.
\<close>

theorem generateLabelCombinations_count_counterexample:
  "generateLabelCombinations (benchmarkerWith 2 []) =
     Inr [[''benchmark_replica'' \<mapsto> ''replica-0''], [''benchmark_replica'' \<mapsto> ''replica-1'']]
   \<and> min 2 (nonEmptyProduct []) = 1
   \<and> generateLabelCombinations (benchmarkerWith 3 [\<lparr>Name = ''benchmark_instance'', Values = []\<rparr>]) =
     Inr [[''benchmark_instance'' \<mapsto> ''bench-1''], [''benchmark_instance'' \<mapsto> ''bench-2''],
          [''benchmark_instance'' \<mapsto> ''bench-3'']]
   \<and> min 3 (nonEmptyProduct [\<lparr>Name = ''benchmark_instance'', Values = []\<rparr>]) = 1
   \<and> generateLabelCombinations (benchmarkerWith 1 (binaryLabels 63)) = Inr []
   \<and> min 1 (nonEmptyProduct (binaryLabels 63)) = 1"
proof -
  have a: "generateLabelCombinations (benchmarkerWith 2 []) =
     Inr [[''benchmark_replica'' \<mapsto> ''replica-0''], [''benchmark_replica'' \<mapsto> ''replica-1'']]"
    by (simp add: generateLabelCombinations_def benchmarkerWith_def Sprintf_d_def decimal.simps upt_rec)
  have b: "generateLabelCombinations (benchmarkerWith 3 [\<lparr>Name = ''benchmark_instance'', Values = []\<rparr>]) =
     Inr [[''benchmark_instance'' \<mapsto> ''bench-1''], [''benchmark_instance'' \<mapsto> ''bench-2''],
          [''benchmark_instance'' \<mapsto> ''bench-3'']]"
    by (simp add: generateLabelCombinations_def benchmarkerWith_def processedLabels_def autoValues_def
          wrap64_def Sprintf_d_def decimal.simps upt_rec)
  have ne: "\<forall>l \<in> set (binaryLabels 63). Values l \<noteq> []"
    by (simp add: binaryLabels_def)
  have "binaryLabels 63 \<noteq> []"
    by (simp add: binaryLabels_def)
  then have c: "generateLabelCombinations (benchmarkerWith 1 (binaryLabels 63)) = Inr []"
    using generateLabelCombinations_nonempty_spec [of "benchmarkerWith 1 (binaryLabels 63)"]
    by (simp add: benchmarkerWith_def processedLabels_nonempty [OF ne] totalCombinations_binaryLabels)
  show ?thesis
    using a b c by (simp add: nonEmptyProduct_binaryLabels) (simp add: nonEmptyProduct_def)
qed

text \<open>
  C2, amended. For a replication factor of at least 1: with no labels configured the
  result is exactly the singleton sets \<open>{benchmark_replica: "replica-<i>"}\<close> for \<open>i\<close>
  from 0 below the replication factor. With labels configured, take the value lists
  after the \<open>benchmark_instance\<close> fill (\<open>processedLabels\<close>); if the product of their non-empty
  lengths is below \<open>2^63\<close>, the number of combinations is the minimum of the replication
  factor and that product, and every key and value of a produced set is the name of an
  entry and a member of that entry's value list.
\<close>

theorem generateLabelCombinations_count:
  assumes "1 \<le> ReplicationFactor (BenchmarkCfg (config b))"
  shows "(Replication (config b) = [] \<longrightarrow>
            generateLabelCombinations b =
              Inr (map (\<lambda>i. [''benchmark_replica'' \<mapsto> ''replica-'' @ Sprintf_d (int i)])
                     [0..<nat (ReplicationFactor (BenchmarkCfg (config b)))]))
       \<and> (Replication (config b) \<noteq> [] \<and>
          nonEmptyProduct (processedLabels (ReplicationFactor (BenchmarkCfg (config b)))
                             (Replication (config b))) < 2 ^ 63 \<longrightarrow>
            (\<exists>cs. generateLabelCombinations b = Inr cs
               \<and> int (length cs) =
                   min (ReplicationFactor (BenchmarkCfg (config b)))
                       (nonEmptyProduct (processedLabels (ReplicationFactor (BenchmarkCfg (config b)))
                                           (Replication (config b))))
               \<and> (\<forall>c \<in> set cs. \<forall>k v. c k = Some v \<longrightarrow>
                     (\<exists>l \<in> set (processedLabels (ReplicationFactor (BenchmarkCfg (config b)))
                                   (Replication (config b))).
                        Name l = k \<and> v \<in> set (Values l)))))"
proof (intro conjI impI)
  assume "Replication (config b) = []"
  with assms show "generateLabelCombinations b =
      Inr (map (\<lambda>i. [''benchmark_replica'' \<mapsto> ''replica-'' @ Sprintf_d (int i)])
             [0..<nat (ReplicationFactor (BenchmarkCfg (config b)))])"
    by (simp add: generateLabelCombinations_def)
next
  let ?rf = "ReplicationFactor (BenchmarkCfg (config b))"
  let ?ps = "processedLabels ?rf (Replication (config b))"
  assume a: "Replication (config b) \<noteq> [] \<and> nonEmptyProduct ?ps < 2 ^ 63"
  have tot: "totalCombinations ?ps 1 = nonEmptyProduct ?ps"
    using totalCombinations_exact [of 1 ?ps] a by simp
  let ?cs = "map (\<lambda>i. assignLabels ?ps i Map.empty) [0..<nat (min ?rf (nonEmptyProduct ?ps))]"
  have gen: "generateLabelCombinations b = Inr ?cs"
    using generateLabelCombinations_nonempty_spec [of b] a assms tot by simp
  have len: "int (length ?cs) = min ?rf (nonEmptyProduct ?ps)"
    using assms nonEmptyProduct_pos [of ?ps] by simp
  have src: "\<forall>c \<in> set ?cs. \<forall>k v. c k = Some v \<longrightarrow>
                (\<exists>l \<in> set ?ps. Name l = k \<and> v \<in> set (Values l))"
  proof (intro ballI allI impI)
    fix c k v assume "c \<in> set ?cs" and cv: "c k = Some v"
    then obtain i where "c = assignLabels ?ps i Map.empty" by auto
    with cv assignLabels_source [of ?ps i Map.empty k v]
    show "\<exists>l \<in> set ?ps. Name l = k \<and> v \<in> set (Values l)" by simp
  qed
  from gen len src
  show "\<exists>cs. generateLabelCombinations b = Inr cs
          \<and> int (length cs) = min ?rf (nonEmptyProduct ?ps)
          \<and> (\<forall>c \<in> set cs. \<forall>k v. c k = Some v \<longrightarrow>
                (\<exists>l \<in> set ?ps. Name l = k \<and> v \<in> set (Values l)))"
    by blast
qed

text \<open>A filled \<open>benchmark_instance\<close> and a two-valued \<open>region\<close>: the product is 6, and three combinations are returned.\<close>

theorem generateLabelCombinations_count_witness:
  "1 \<le> ReplicationFactor (BenchmarkCfg (config (benchmarkerWith 3
       [\<lparr>Name = ''benchmark_instance'', Values = []\<rparr>, \<lparr>Name = ''region'', Values = [''us'', ''eu'']\<rparr>])))
   \<and> nonEmptyProduct (processedLabels 3
       [\<lparr>Name = ''benchmark_instance'', Values = []\<rparr>, \<lparr>Name = ''region'', Values = [''us'', ''eu'']\<rparr>]) = 6
   \<and> (\<exists>cs. generateLabelCombinations (benchmarkerWith 3
       [\<lparr>Name = ''benchmark_instance'', Values = []\<rparr>, \<lparr>Name = ''region'', Values = [''us'', ''eu'']\<rparr>]) = Inr cs
        \<and> length cs = 3)"
proof -
  let ?ls = "[\<lparr>Name = ''benchmark_instance'', Values = []\<rparr>, \<lparr>Name = ''region'', Values = [''us'', ''eu'']\<rparr>]"
  let ?b = "benchmarkerWith 3 ?ls"
  have h: "1 \<le> ReplicationFactor (BenchmarkCfg (config ?b))"
    by (simp add: benchmarkerWith_def)
  have p: "nonEmptyProduct (processedLabels 3 ?ls) = 6"
    using autoValues_nonempty [of 3]
    by (simp add: nonEmptyProduct_def processedLabels_def length_autoValues)
  have c: "Replication (config ?b) = ?ls" "ReplicationFactor (BenchmarkCfg (config ?b)) = 3"
    by (simp_all add: benchmarkerWith_def)
  from generateLabelCombinations_count [OF h] p
  have "\<exists>cs. generateLabelCombinations ?b = Inr cs \<and> int (length cs) = min 3 6"
    unfolding c by auto
  with h p show ?thesis by auto
qed

text \<open>
  C3, as stated, fails when two entries share a name: a label set has one value per key,
  and the later entry overwrites the earlier. With \<open>region: [us, eu]\<close> followed by
  \<open>region: [ap, sa]\<close> combination 0 holds \<open>ap\<close> under \<open>region\<close>, while the formula gives
  \<open>us\<close> for entry 0.
\<close>

theorem generateLabelCombinations_mixed_radix_counterexample:
  "map_sum id (map (\<lambda>c. c ''region''))
     (generateLabelCombinations (benchmarkerWith 4
       [\<lparr>Name = ''region'', Values = [''us'', ''eu'']\<rparr>, \<lparr>Name = ''region'', Values = [''ap'', ''sa'']\<rparr>]))
     = Inr [Some ''ap'', Some ''ap'', Some ''sa'', Some ''sa'']
   \<and> Values ([\<lparr>Name = ''region'', Values = [''us'', ''eu'']\<rparr>, \<lparr>Name = ''region'', Values = [''ap'', ''sa'']\<rparr>] ! 0)
       ! ((0 div radixPrefix [\<lparr>Name = ''region'', Values = [''us'', ''eu'']\<rparr>,
                              \<lparr>Name = ''region'', Values = [''ap'', ''sa'']\<rparr>] 0) mod 2) = ''us''"
  by code_simp

text \<open>
  C3, amended. For every non-empty list of labels whose value lists are all non-empty,
  the call returns combinations (as many as the minimum of the replication factor and
  the product of the lengths, when the factor is at least 1 and the product is below
  \<open>2^63\<close>), and for every index \<open>i\<close> of a combination and every entry \<open>k\<close> whose name no
  later entry repeats, combination \<open>i\<close> holds under entry \<open>k\<close>'s
  name the value \<open>values[k][(i / radixPrefix k) mod len(values[k])]\<close>, the radix prefix
  being the product of the value-list lengths of the entries before \<open>k\<close>.
\<close>

theorem generateLabelCombinations_mixed_radix:
  assumes "Replication (config b) \<noteq> []"
    and "\<forall>l \<in> set (Replication (config b)). Values l \<noteq> []"
  shows "\<exists>cs. generateLabelCombinations b = Inr cs \<and>
           (1 \<le> ReplicationFactor (BenchmarkCfg (config b)) \<and>
            nonEmptyProduct (Replication (config b)) < 2 ^ 63 \<longrightarrow>
              int (length cs) = min (ReplicationFactor (BenchmarkCfg (config b)))
                                    (nonEmptyProduct (Replication (config b)))) \<and>
           (\<forall>i < length cs. \<forall>k < length (Replication (config b)).
              (\<forall>j. k < j \<and> j < length (Replication (config b)) \<longrightarrow>
                   Name (Replication (config b) ! j) \<noteq> Name (Replication (config b) ! k)) \<longrightarrow>
              (cs ! i) (Name (Replication (config b) ! k)) =
                Some (Values (Replication (config b) ! k) !
                       ((i div radixPrefix (Replication (config b)) k)
                          mod length (Values (Replication (config b) ! k)))))"
proof -
  let ?rf = "ReplicationFactor (BenchmarkCfg (config b))"
  let ?ls = "Replication (config b)"
  let ?n = "nat (min ?rf (totalCombinations ?ls 1))"
  let ?cs = "map (\<lambda>i. assignLabels ?ls i Map.empty) [0..<?n]"
  have gen: "generateLabelCombinations b = Inr ?cs"
    using generateLabelCombinations_nonempty_spec [of b] assms
    by (simp add: processedLabels_nonempty)
  have "\<forall>i < length ?cs. \<forall>k < length ?ls.
          (\<forall>j. k < j \<and> j < length ?ls \<longrightarrow> Name (?ls ! j) \<noteq> Name (?ls ! k)) \<longrightarrow>
          (?cs ! i) (Name (?ls ! k)) =
            Some (Values (?ls ! k) ! ((i div radixPrefix ?ls k) mod length (Values (?ls ! k))))"
  proof (intro allI impI)
    fix i k
    assume i: "i < length ?cs" and k: "k < length ?ls"
      and d: "\<forall>j. k < j \<and> j < length ?ls \<longrightarrow> Name (?ls ! j) \<noteq> Name (?ls ! k)"
    from i have "?cs ! i = assignLabels ?ls i Map.empty" by simp
    with assignLabels_nth [OF assms(2) k d, of i Map.empty]
    show "(?cs ! i) (Name (?ls ! k)) =
            Some (Values (?ls ! k) ! ((i div radixPrefix ?ls k) mod length (Values (?ls ! k))))"
      by simp
  qed
  moreover have "1 \<le> ?rf \<and> nonEmptyProduct ?ls < 2 ^ 63 \<longrightarrow>
                   int (length ?cs) = min ?rf (nonEmptyProduct ?ls)"
    using generateLabelCombinations_length [OF assms(1) _ _ gen]
    by (simp add: processedLabels_nonempty [OF assms(2)])
  ultimately show ?thesis
    using gen by blast
qed

text \<open>
  The example of C3: \<open>region: [us, eu]\<close>, \<open>env: [x, y]\<close> and a replication factor of 4
  give \<open>(us, x), (eu, x), (us, y), (eu, y)\<close>, in this order.
\<close>

lemma generateLabelCombinations_region_env:
  "map_sum id (map (\<lambda>c. (c ''region'', c ''env'')))
     (generateLabelCombinations (benchmarkerWith 4
       [\<lparr>Name = ''region'', Values = [''us'', ''eu'']\<rparr>, \<lparr>Name = ''env'', Values = [''x'', ''y'']\<rparr>]))
   = Inr [(Some ''us'', Some ''x''), (Some ''eu'', Some ''x''),
          (Some ''us'', Some ''y''), (Some ''eu'', Some ''y'')]"
  by code_simp

text \<open>The theorem of C3 at that example, for the combinations 1 and 2.\<close>

theorem generateLabelCombinations_mixed_radix_witness:
  "\<exists>cs. generateLabelCombinations (benchmarkerWith 4
       [\<lparr>Name = ''region'', Values = [''us'', ''eu'']\<rparr>, \<lparr>Name = ''env'', Values = [''x'', ''y'']\<rparr>]) = Inr cs
     \<and> length cs = 4
     \<and> (cs ! 1) ''region'' = Some ''eu'' \<and> (cs ! 1) ''env'' = Some ''x''
     \<and> (cs ! 2) ''region'' = Some ''us'' \<and> (cs ! 2) ''env'' = Some ''y''"
proof -
  let ?ls = "[\<lparr>Name = ''region'', Values = [''us'', ''eu'']\<rparr>, \<lparr>Name = ''env'', Values = [''x'', ''y'']\<rparr>]"
  let ?b = "benchmarkerWith 4 ?ls"
  have c: "Replication (config ?b) = ?ls"
    by (simp add: benchmarkerWith_def)
  have h1: "Replication (config ?b) \<noteq> []" and h2: "\<forall>l \<in> set (Replication (config ?b)). Values l \<noteq> []"
    by (simp_all add: c)
  from generateLabelCombinations_mixed_radix [OF h1 h2]
  obtain cs where gen: "generateLabelCombinations ?b = Inr cs"
    and rad: "\<forall>i < length cs. \<forall>k < length ?ls.
        (\<forall>j. k < j \<and> j < length ?ls \<longrightarrow> Name (?ls ! j) \<noteq> Name (?ls ! k)) \<longrightarrow>
        (cs ! i) (Name (?ls ! k)) =
          Some (Values (?ls ! k) ! ((i div radixPrefix ?ls k) mod length (Values (?ls ! k))))"
    unfolding c by blast
  have "generateLabelCombinations ?b =
          Inr (map (\<lambda>i. assignLabels ?ls i Map.empty) [0..<4])"
    using generateLabelCombinations_nonempty_spec [of ?b]
    by (simp add: c benchmarkerWith_def processedLabels_def wrap64_def)
  with gen have len: "length cs = 4" by auto
  have d0: "\<And>j. 0 < j \<and> j < length ?ls \<Longrightarrow> Name (?ls ! j) \<noteq> Name (?ls ! 0)"
    by (auto simp: less_Suc_eq)
  have d1: "\<And>j. 1 < j \<and> j < length ?ls \<Longrightarrow> Name (?ls ! j) \<noteq> Name (?ls ! 1)"
    by (auto simp: less_Suc_eq)
  have r: "(cs ! i) ''region'' = Some ([''us'', ''eu''] ! (i mod 2))" if "i < 4" for i
    using rad [rule_format, of i 0, OF _ _ d0] len that
    by (simp add: radixPrefix_def numeral_2_eq_2 [symmetric])
  have e: "(cs ! i) ''env'' = Some ([''x'', ''y''] ! ((i div 2) mod 2))" if "i < 4" for i
    using rad [rule_format, of i 1, OF _ _ d1] len that
    by (simp add: radixPrefix_def numeral_2_eq_2 [symmetric])
  have r1: "(cs ! 1) ''region'' = Some ''eu''" using r [of 1] by simp
  have e1: "(cs ! 1) ''env'' = Some ''x''" using e [of 1] by simp
  have r2: "(cs ! 2) ''region'' = Some ''us''" using r [of 2] by simp
  have e2: "(cs ! 2) ''env'' = Some ''y''" using e [of 2] by simp
  from gen len r1 e1 r2 e2 show ?thesis by blast
qed

text \<open>
  C10, as stated, fails when another entry carries the same name: \<open>region\<close> with no
  values followed by \<open>region: [us]\<close> gives a combination that holds the key \<open>region\<close>,
  the name of entry 0, which is not \<open>benchmark_instance\<close> and has no values.
\<close>

theorem empty_valued_label_contributes_nothing_counterexample:
  "generateLabelCombinations (benchmarkerWith 1
       [\<lparr>Name = ''region'', Values = []\<rparr>, \<lparr>Name = ''region'', Values = [''us'']\<rparr>])
     = Inr [[''region'' \<mapsto> ''us'']]
   \<and> Name ([\<lparr>Name = ''region'', Values = []\<rparr>, \<lparr>Name = ''region'', Values = [''us'']\<rparr>] ! 0) = ''region''
   \<and> Values ([\<lparr>Name = ''region'', Values = []\<rparr>, \<lparr>Name = ''region'', Values = [''us'']\<rparr>] ! 0) = []"
  by (simp add: generateLabelCombinations_def benchmarkerWith_def processedLabels_def wrap64_def upt_rec)

text \<open>
  C10, amended. For a replication factor of at least 1 and an entry \<open>k\<close> with no values,
  the call returns combinations \<open>cs\<close> (as many as the minimum of the replication factor
  and the product of the non-empty lengths after the fill, when that product is below
  \<open>2^63\<close>). If the entry is not named \<open>benchmark_instance\<close>:
  when every entry of its name has no values, no combination holds its name as a key;
  and taking the entry out of the list (other entries remaining) gives the same
  combinations, so it adds nothing to their number and no key or value. If the entry is
  named \<open>benchmark_instance\<close>, it is filled with \<open>bench-1\<close> to \<open>bench-<replicationFactor>\<close>
  and every combination holds the key \<open>benchmark_instance\<close>.
\<close>

theorem empty_valued_label_contributes_nothing:
  assumes "1 \<le> ReplicationFactor (BenchmarkCfg (config b))"
    and "k < length (Replication (config b))"
    and "Values (Replication (config b) ! k) = []"
  shows "\<exists>cs. generateLabelCombinations b = Inr cs \<and>
     (nonEmptyProduct (processedLabels (ReplicationFactor (BenchmarkCfg (config b)))
                         (Replication (config b))) < 2 ^ 63 \<longrightarrow>
        int (length cs) =
          min (ReplicationFactor (BenchmarkCfg (config b)))
              (nonEmptyProduct (processedLabels (ReplicationFactor (BenchmarkCfg (config b)))
                                  (Replication (config b))))) \<and>
     (Name (Replication (config b) ! k) \<noteq> ''benchmark_instance'' \<longrightarrow>
        ((\<forall>l \<in> set (Replication (config b)).
            Name l = Name (Replication (config b) ! k) \<longrightarrow> Values l = []) \<longrightarrow>
         (\<forall>c \<in> set cs. c (Name (Replication (config b) ! k)) = None))
      \<and> (take k (Replication (config b)) @ drop (Suc k) (Replication (config b)) \<noteq> [] \<longrightarrow>
           generateLabelCombinations
             (b\<lparr>config := (config b)\<lparr>Replication :=
                   take k (Replication (config b)) @ drop (Suc k) (Replication (config b))\<rparr>\<rparr>)
             = Inr cs))
   \<and> (Name (Replication (config b) ! k) = ''benchmark_instance'' \<longrightarrow>
        Values (processedLabels (ReplicationFactor (BenchmarkCfg (config b)))
                  (Replication (config b)) ! k)
          = map (\<lambda>j. ''bench-'' @ Sprintf_d (int j + 1))
              [0..<nat (ReplicationFactor (BenchmarkCfg (config b)))]
      \<and> (\<forall>c \<in> set cs. c ''benchmark_instance'' \<noteq> None))"
proof -
  let ?rf = "ReplicationFactor (BenchmarkCfg (config b))"
  let ?ls = "Replication (config b)"
  let ?e = "?ls ! k"
  let ?pre = "take k ?ls" and ?post = "drop (Suc k) ?ls"
  let ?ps = "processedLabels ?rf ?ls"
  let ?n = "nat (min ?rf (totalCombinations ?ps 1))"
  let ?cs = "map (\<lambda>i. assignLabels ?ps i Map.empty) [0..<?n]"
  have ne: "?ls \<noteq> []" using assms(2) by auto
  have gen: "generateLabelCombinations b = Inr ?cs"
    using generateLabelCombinations_nonempty_spec [of b] ne assms(1) by simp
  have split: "?ls = ?pre @ ?e # ?post"
    using assms(2) by (simp add: id_take_nth_drop)
  have absent: "\<forall>c \<in> set ?cs. c (Name ?e) = None"
    if other: "Name ?e \<noteq> ''benchmark_instance''"
      and all: "\<forall>l \<in> set ?ls. Name l = Name ?e \<longrightarrow> Values l = []"
  proof -
    have "\<forall>l \<in> set ?ps. Name l = Name ?e \<longrightarrow> Values l = []"
      using processedLabels_other [OF other] all by blast
    from assignLabels_untouched [OF this] show ?thesis by simp
  qed
  have removed: "generateLabelCombinations (b\<lparr>config := (config b)\<lparr>Replication := ?pre @ ?post\<rparr>\<rparr>)
                   = Inr ?cs"
    if other: "Name ?e \<noteq> ''benchmark_instance''" and rest: "?pre @ ?post \<noteq> []"
  proof -
    let ?b' = "b\<lparr>config := (config b)\<lparr>Replication := ?pre @ ?post\<rparr>\<rparr>"
    have ps: "?ps = processedLabels ?rf ?pre @ ?e # processedLabels ?rf ?post"
      using split other
      by (metis processedLabels_append processedLabels_keep)
    have tot: "totalCombinations ?ps 1 = totalCombinations (processedLabels ?rf (?pre @ ?post)) 1"
      using assms(3) by (simp add: ps totalCombinations_skip processedLabels_append)
    have asg: "\<And>i. assignLabels ?ps i Map.empty
                  = assignLabels (processedLabels ?rf (?pre @ ?post)) i Map.empty"
      using assms(3) by (simp add: ps assignLabels_skip processedLabels_append)
    have "generateLabelCombinations ?b' =
            Inr (map (\<lambda>i. assignLabels (processedLabels ?rf (?pre @ ?post)) i Map.empty)
                   [0..<nat (min ?rf (totalCombinations (processedLabels ?rf (?pre @ ?post)) 1))])"
      using generateLabelCombinations_nonempty_spec [of ?b'] rest assms(1) by simp
    then show ?thesis
      by (simp only: tot asg)
  qed
  have filled: "Values (?ps ! k) = map (\<lambda>j. ''bench-'' @ Sprintf_d (int j + 1)) [0..<nat ?rf]"
    and present: "\<forall>c \<in> set ?cs. c ''benchmark_instance'' \<noteq> None"
    if bi: "Name ?e = ''benchmark_instance''"
  proof -
    have pk: "?ps ! k = ?e\<lparr>Values := autoValues ?rf\<rparr>"
      using assms(2,3) bi by (simp add: processedLabels_nth)
    then show "Values (?ps ! k) = map (\<lambda>j. ''bench-'' @ Sprintf_d (int j + 1)) [0..<nat ?rf]"
      by (simp add: autoValues_def)
    have "?ps ! k \<in> set ?ps"
      using assms(2) by (intro nth_mem) (simp add: processedLabels_def)
    moreover have "Name (?ps ! k) = ''benchmark_instance''" "Values (?ps ! k) \<noteq> []"
      using pk bi autoValues_nonempty [OF assms(1)] by simp_all
    ultimately have "\<exists>l \<in> set ?ps. Name l = ''benchmark_instance'' \<and> Values l \<noteq> []"
      by blast
    from assignLabels_present [OF this] show "\<forall>c \<in> set ?cs. c ''benchmark_instance'' \<noteq> None"
      by simp
  qed
  have count: "int (length ?cs) = min ?rf (nonEmptyProduct ?ps)"
    if "nonEmptyProduct ?ps < 2 ^ 63"
    using generateLabelCombinations_length [OF ne assms(1) that gen] .
  show ?thesis
    using gen count absent removed filled present by blast
qed

text \<open>An empty \<open>zone\<close> before an empty \<open>benchmark_instance\<close>: the two combinations do not hold \<open>zone\<close>, and are those of the list without it.\<close>

theorem empty_valued_label_contributes_nothing_witness:
  "\<exists>cs. generateLabelCombinations (benchmarkerWith 2
       [\<lparr>Name = ''zone'', Values = []\<rparr>, \<lparr>Name = ''benchmark_instance'', Values = []\<rparr>]) = Inr cs
     \<and> length cs = 2
     \<and> list_all (\<lambda>c. c ''zone'' = None) cs
     \<and> generateLabelCombinations (benchmarkerWith 2 [\<lparr>Name = ''benchmark_instance'', Values = []\<rparr>]) = Inr cs"
proof -
  let ?ls = "[\<lparr>Name = ''zone'', Values = []\<rparr>, \<lparr>Name = ''benchmark_instance'', Values = []\<rparr>]"
  let ?b = "benchmarkerWith 2 ?ls"
  have c: "Replication (config ?b) = ?ls" "ReplicationFactor (BenchmarkCfg (config ?b)) = 2"
    by (simp_all add: benchmarkerWith_def)
  have h1: "1 \<le> ReplicationFactor (BenchmarkCfg (config ?b))" by (simp add: c)
  have h2: "0 < length (Replication (config ?b))" by (simp add: c)
  have h3: "Values (Replication (config ?b) ! 0) = []" by (simp add: c)
  have b': "?b\<lparr>config := (config ?b)\<lparr>Replication := take 0 ?ls @ drop (Suc 0) ?ls\<rparr>\<rparr>
              = benchmarkerWith 2 [\<lparr>Name = ''benchmark_instance'', Values = []\<rparr>]"
    by (simp add: benchmarkerWith_def)
  from empty_valued_label_contributes_nothing [OF h1 h2 h3]
  obtain cs where gen: "generateLabelCombinations ?b = Inr cs"
    and absent: "\<forall>c \<in> set cs. c ''zone'' = None"
    and removed: "generateLabelCombinations (benchmarkerWith 2 [\<lparr>Name = ''benchmark_instance'', Values = []\<rparr>]) = Inr cs"
    unfolding c using b' by auto
  have "generateLabelCombinations ?b = Inr (map (\<lambda>i. assignLabels (processedLabels 2 ?ls) i Map.empty) [0..<2])"
    using generateLabelCombinations_nonempty_spec [of ?b]
    by (simp add: c processedLabels_def wrap64_def length_autoValues)
  with gen have "length cs = 2" by auto
  moreover have "list_all (\<lambda>c. c ''zone'' = None) cs"
    using absent by (simp add: list_all_iff)
  ultimately show ?thesis
    using gen removed by (intro exI [of _ cs]) simp
qed

section \<open>Filtering\<close>

lemma compilePatterns_result:
  "compilePatterns w ps acc s =
     (acc @ concat (map (\<lambda>p. case Compile w p of Inr r \<Rightarrow> [r] | Inl e \<Rightarrow> []) ps),
      s\<lparr>trace := trace s @
          concat (map (\<lambda>p. case Compile w p of Inl e \<Rightarrow> [WarnInvalidPattern p e] | Inr r \<Rightarrow> []) ps)\<rparr>)"
  by (induction ps arbitrary: acc s) (auto simp: emit_def split: sum.splits)

lemma excluded_iff: "excluded rs m \<longleftrightarrow> (\<exists>r \<in> set rs. r m)"
  by (induction rs) auto

lemma filterLoop_result: "filterLoop rs ms acc = acc @ filter (\<lambda>m. \<not> excluded rs m) ms"
  by (induction ms arbitrary: acc) auto

text \<open>
  C7. The constructor compiles the exclude patterns in order: the \<open>Benchmarker\<close> holds
  every pattern that compiles, a pattern that does not compile is reported by one
  warning and skipped, and the patterns after it are still compiled. \<open>filterMetrics\<close>
  keeps, in order, exactly the names that none of the compiled patterns matches.
\<close>

theorem filterMetrics_keeps_unmatched:
  "excludeRegexes (fst (NewBenchmarker w cfg dry s)) =
     concat (map (\<lambda>p. case Compile w p of Inr r \<Rightarrow> [r] | Inl e \<Rightarrow> []) (ExcludeMetrics cfg))
   \<and> trace (snd (NewBenchmarker w cfg dry s)) =
       trace s @ concat (map (\<lambda>p. case Compile w p of Inl e \<Rightarrow> [WarnInvalidPattern p e]
                                                       | Inr r \<Rightarrow> []) (ExcludeMetrics cfg))
   \<and> filterMetrics (fst (NewBenchmarker w cfg dry s)) metrics =
       filter (\<lambda>m. \<forall>r \<in> set (excludeRegexes (fst (NewBenchmarker w cfg dry s))). \<not> r m) metrics"
proof -
  have f: "filterMetrics b metrics = filter (\<lambda>m. \<forall>r \<in> set (excludeRegexes b). \<not> r m) metrics" for b
    by (simp add: filterMetrics_def filterLoop_result excluded_iff)
  show ?thesis
    by (simp add: f NewBenchmarker_def compilePatterns_result NewRemoteWriter_def tick_def)
qed

text \<open>
  The filtering example of the specification: \<open>[unclosed\<close> is skipped with a warning,
  \<open>^go_\<close> after it still removes \<open>go_memstats_alloc_bytes\<close>, and \<open>http_requests_total\<close>
  stays.
\<close>

theorem filterMetrics_keeps_unmatched_witness:
  "filterMetrics (fst (NewBenchmarker exampleWorld (configWith [''[unclosed'', ''^go_'']) True initialState))
     [''go_memstats_alloc_bytes'', ''http_requests_total''] = [''http_requests_total'']
   \<and> trace (snd (NewBenchmarker exampleWorld (configWith [''[unclosed'', ''^go_'']) True initialState))
       = [WarnInvalidPattern ''[unclosed'' (ExternalError ''error parsing regexp'')]"
  using filterMetrics_keeps_unmatched [of exampleWorld "configWith [''[unclosed'', ''^go_'']" True initialState
          "[''go_memstats_alloc_bytes'', ''http_requests_total'']"]
  by (simp add: exampleWorld_def configWith_def initialState_def)

section \<open>Value conversion\<close>

lemma convertLoop_values:
  "map Value (fst (convertLoop w vs acc s)) = map Value acc @ List.map_filter (convertible w) vs"
proof (induction vs arbitrary: acc s)
  case Nil
  then show ?case by (simp add: List.map_filter_simps)
next
  case (Cons v vs)
  show ?case
  proof (cases "convertible w v")
    case None
    then show ?thesis
      using Cons.IH
      by (auto simp: convertible_def List.map_filter_simps split: if_splits any.splits option.splits)
  next
    case (Some f)
    then obtain str where v: "length v = 2" "v ! 1 = AnyString str" "ParseFloat w str = Some f"
      by (auto simp: convertible_def split: if_splits any.splits)
    then show ?thesis
      using Cons.IH Some
      by (simp add: List.map_filter_simps split_beta)
  qed
qed

text \<open>
  C4, as stated, fails in two places. \<open>strconv.ParseFloat\<close> accepts \<open>"NaN"\<close> (and the
  infinities) with a nil error, and the code has no test for finiteness: the pair
  \<open>[1234567890, "NaN"]\<close> is converted to a sample of value NaN, not dropped. And with no
  raw pair at all, zero samples remain, but the call fails with the error
  \<open>no values provided\<close>, not with \<open>no valid samples found\<close>.
\<close>

theorem convertToTimeSeries_drops_invalid_counterexample:
  "fst (convertToTimeSeries exampleWorld Map.empty
          [[AnyFloat64 (Finite 1234567890), AnyString ''NaN'']] initialState)
     = Inr \<lparr>Labels = Map.empty, Samples = [\<lparr>Timestamp = 1700000000001, Value = NaN\<rparr>]\<rparr>
   \<and> fst (convertToTimeSeries exampleWorld Map.empty [] initialState) = Inl NoValuesProvided"
  by (simp add: convertToTimeSeries_def exampleWorld_def initialState_def coordinatedTimestamp_def
        NextTimestamp_def NewTimestampCoordinator_def tick_def)

text \<open>
  C4, amended. A raw pair is converted exactly when it has two elements, the second is a
  string, and \<open>ParseFloat\<close> accepts that string (finite or not); every other pair is
  dropped without failing the series, and the samples are the parsed numbers of the
  converted pairs, in order. The call fails with \<open>no values provided\<close> when there is no
  raw pair, with \<open>no valid samples found\<close> exactly when there are raw pairs and none
  converts, and succeeds otherwise.
\<close>

theorem convertToTimeSeries_drops_invalid:
  "(vals = [] \<longrightarrow> fst (convertToTimeSeries w labels vals s) = Inl NoValuesProvided)
   \<and> (vals \<noteq> [] \<and> List.map_filter (convertible w) vals = [] \<longrightarrow>
        fst (convertToTimeSeries w labels vals s) = Inl NoValidSamplesFound)
   \<and> (List.map_filter (convertible w) vals \<noteq> [] \<longrightarrow>
        (\<exists>ts. fst (convertToTimeSeries w labels vals s) = Inr ts \<and> Labels ts = labels
           \<and> map Value (Samples ts) = List.map_filter (convertible w) vals))"
proof -
  have v: "map Value (fst (convertLoop w vals [] s)) = List.map_filter (convertible w) vals"
    using convertLoop_values [of w vals "[]" s] by simp
  have e: "fst (convertLoop w vals [] s) = [] \<longleftrightarrow> List.map_filter (convertible w) vals = []"
    using v by (metis map_is_Nil_conv)
  show ?thesis
  proof (intro conjI impI)
    assume "vals = []"
    then show "fst (convertToTimeSeries w labels vals s) = Inl NoValuesProvided"
      by (simp add: convertToTimeSeries_def)
  next
    assume "vals \<noteq> [] \<and> List.map_filter (convertible w) vals = []"
    then show "fst (convertToTimeSeries w labels vals s) = Inl NoValidSamplesFound"
      using e by (simp add: convertToTimeSeries_def split_beta)
  next
    assume a: "List.map_filter (convertible w) vals \<noteq> []"
    then have "vals \<noteq> []" by (auto simp: List.map_filter_simps)
    with a e v
    show "\<exists>ts. fst (convertToTimeSeries w labels vals s) = Inr ts \<and> Labels ts = labels
           \<and> map Value (Samples ts) = List.map_filter (convertible w) vals"
      by (simp add: convertToTimeSeries_def split_beta)
  qed
qed

text \<open>
  The conversion example of the specification: \<open>[1234567890, "3.14"]\<close> converts to the
  value 3.14, \<open>["x", "not-a-number"]\<close> and a one-element pair are dropped; pairs that are
  all invalid give \<open>no valid samples found\<close>.
\<close>

theorem convertToTimeSeries_drops_invalid_witness:
  "(\<exists>ts. fst (convertToTimeSeries exampleWorld Map.empty
                [[AnyFloat64 (Finite 1234567890), AnyString ''3.14''],
                 [AnyString ''x'', AnyString ''not-a-number''],
                 [AnyString ''3.14'']] initialState) = Inr ts
        \<and> map Value (Samples ts) = [Finite (157 / 50)])
   \<and> fst (convertToTimeSeries exampleWorld Map.empty
            [[AnyString ''x'', AnyString ''not-a-number''], [AnyFloat64 (Finite 1), AnyFloat64 (Finite 2)]]
            initialState) = Inl NoValidSamplesFound"
proof -
  let ?a = "[[AnyFloat64 (Finite 1234567890), AnyString ''3.14''],
             [AnyString ''x'', AnyString ''not-a-number''], [AnyString ''3.14'']]"
  let ?b = "[[AnyString ''x'', AnyString ''not-a-number''], [AnyFloat64 (Finite 1), AnyFloat64 (Finite 2)]]"
  have a: "List.map_filter (convertible exampleWorld) ?a = [Finite (157 / 50)]"
    by (simp add: List.map_filter_simps convertible_def exampleWorld_def)
  have b: "List.map_filter (convertible exampleWorld) ?b = []"
    by (simp add: List.map_filter_simps convertible_def exampleWorld_def)
  from convertToTimeSeries_drops_invalid [of ?a exampleWorld Map.empty initialState]
       convertToTimeSeries_drops_invalid [of ?b exampleWorld Map.empty initialState]
  show ?thesis
    unfolding a b by auto
qed

section \<open>Batched sending\<close>

lemma batchCount_less: "0 < n \<Longrightarrow> j < batchCount n len \<longleftrightarrow> j * n < len"
proof -
  assume n: "0 < n"
  have "j < batchCount n len \<longleftrightarrow> Suc j \<le> (len + n - 1) div n"
    by (simp add: batchCount_def Suc_le_eq)
  also have "\<dots> \<longleftrightarrow> Suc j * n \<le> len + n - 1"
    using n by (simp add: less_eq_div_iff_mult_less_eq)
  also have "\<dots> \<longleftrightarrow> j * n < len"
    using n by auto
  finally show ?thesis .
qed

lemma length_batchAt: "length (batchAt n xs j) \<le> n"
  by (simp add: batchAt_def)

lemma batchAt_nonempty: "0 < n \<Longrightarrow> j < batchCount n (length xs) \<Longrightarrow> batchAt n xs j \<noteq> []"
  by (simp add: batchAt_def batchCount_less)

lemma concat_batches_from:
  assumes "0 < n"
  shows "concat (map (batchAt n xs) [j..<batchCount n (length xs)]) = drop (j * n) xs"
proof (induction "batchCount n (length xs) - j" arbitrary: j)
  case 0
  then have "\<not> j < batchCount n (length xs)" by simp
  then have "\<not> j * n < length xs" using batchCount_less [OF assms] by blast
  with 0 show ?case by simp
next
  case (Suc d)
  then have lt: "j < batchCount n (length xs)" by simp
  have "d = batchCount n (length xs) - Suc j" using Suc.hyps(2) by simp
  from Suc.hyps(1) [OF this]
  have "concat (map (batchAt n xs) [Suc j..<batchCount n (length xs)]) = drop (Suc j * n) xs" .
  moreover have "take n (drop (j * n) xs) @ drop (Suc j * n) xs = drop (j * n) xs"
    by (metis add.commute append_take_drop_id drop_drop mult_Suc)
  ultimately show ?case
    using lt by (simp add: upt_conv_Cons batchAt_def)
qed

lemma concat_batches: "0 < n \<Longrightarrow> concat (map (batchAt n xs) [0..<batchCount n (length xs)]) = xs"
  using concat_batches_from [of n xs 0] by simp

lemma sendBatch_fst: "fst (sendBatch w rw batch s) = writeError (Post w (ticks s) batch)"
  by (simp add: sendBatch_def writeError_def split: post_outcome.splits)

lemma sendBatch_snd:
  "ticks (snd (sendBatch w rw batch s)) = Suc (ticks s)"
  "coordinator (snd (sendBatch w rw batch s)) = coordinator s"
  "trace (snd (sendBatch w rw batch s)) =
     trace s @ (if requested (Post w (ticks s) batch) then [PostWrite batch] else [])"
  by (simp_all add: sendBatch_def requested_def tick_def emit_def split: post_outcome.splits)

lemma sentBatches_0: "sentBatches w n ts t j 0 = []"
  by (simp add: sentBatches_def)

lemma sentBatches_Suc:
  "sentBatches w n ts t j (Suc m) =
     (if requested (Post w t (batchAt n ts j)) then [PostWrite (batchAt n ts j)] else [])
     @ sentBatches w n ts (Suc t) (Suc j) m"
proof -
  have "[0..<Suc m] = 0 # map Suc [0..<m]"
    by (simp add: upt_conv_Cons map_Suc_upt del: upt_Suc)
  then show ?thesis
    by (simp add: sentBatches_def comp_def del: upt_Suc cong: if_cong)
qed

lemma loop_slice:
  assumes "0 < n" and "j * n < length ts"
  shows "take (nat ((if int (j * n) + int n > int (length ts) then int (length ts)
                     else int (j * n) + int n) - int (j * n)))
              (drop (nat (int (j * n))) ts) = batchAt n ts j"
proof -
  have g: "take (nat ((if int i + int n > int (length ts) then int (length ts)
                       else int i + int n) - int i)) (drop (nat (int i)) ts) = take n (drop i ts)"
    if "i < length ts" for i
  proof (cases "int i + int n > int (length ts)")
    case True
    have "nat (int (length ts) - int i) = length ts - i" by simp
    moreover have "length ts - i \<le> n" using True by simp
    ultimately show ?thesis using True by simp
  next
    case False
    have "nat (int i + int n - int i) = n" by simp
    with False show ?thesis by simp
  qed
  show ?thesis
    unfolding batchAt_def by (rule g [OF assms(2)])
qed

lemma loop_stop:
  assumes "\<not> j * n < length ts"
  shows "sendInBatchesFrom w rw ts (int (j * n)) s = Some (Returned None, s)"
proof -
  have c: "\<not> int (j * n) < int (length ts)"
    using assms by (simp only: of_nat_less_iff not_False_eq_True)
  show ?thesis
    by (subst sendInBatchesFrom.simps) (simp only: c if_False)
qed

lemma loop_step:
  assumes "batchSize rw = int n" and "0 < n" and "j * n < length ts"
  shows "sendInBatchesFrom w rw ts (int (j * n)) s =
     (case sendBatch w rw (batchAt n ts j) s of
        (Some err, s') \<Rightarrow>
          Some (Returned (Some (SendingBatch (int (j * n))
                   (min (int (j * n + n)) (int (length ts))) err)), s')
      | (None, s') \<Rightarrow> sendInBatchesFrom w rw ts (int (Suc j * n)) s')"
proof -
  have c: "int (j * n) < int (length ts)"
    using assms(3) by (simp only: of_nat_less_iff)
  have e: "(if int (j * n) + int n > int (length ts) then int (length ts)
            else int (j * n) + int n) = min (int (j * n + n)) (int (length ts))"
    by (simp add: min_def)
  have ne: "\<not> min (int (j * n + n)) (int (length ts)) < int (j * n)"
    using c by (simp only: min_def of_nat_add) (simp split: if_splits)
  have sl: "take (nat (min (int (j * n + n)) (int (length ts)) - int (j * n)))
              (drop (nat (int (j * n))) ts) = batchAt n ts j"
    using loop_slice [OF assms(2,3)] by (simp only: e)
  have nx: "int (j * n) + int n = int (Suc j * n)" by simp
  show ?thesis
    apply (subst sendInBatchesFrom.simps)
    apply (simp only: assms(1) c if_True)
    apply (simp only: e Let_def)
    apply (simp only: ne if_False sl)
    apply (simp only: nx)
    done
qed

lemma sendInBatchesFrom_batches:
  assumes "batchSize rw = int n" and "0 < n"
  shows "\<exists>m r s'. sendInBatchesFrom w rw ts (int (j * n)) s = Some (Returned r, s')
      \<and> (j + m \<le> batchCount n (length ts) \<or> m = 0)
      \<and> ticks s' = ticks s + m \<and> coordinator s' = coordinator s
      \<and> trace s' = trace s @ sentBatches w n ts (ticks s) j m
      \<and> (\<forall>k. Suc k < m \<longrightarrow> writeError (Post w (ticks s + k) (batchAt n ts (j + k))) = None)
      \<and> (case r of
            None \<Rightarrow> \<not> (j + m) * n < length ts
                    \<and> (\<forall>k < m. writeError (Post w (ticks s + k) (batchAt n ts (j + k))) = None)
          | Some e \<Rightarrow> 0 < m \<and>
              (\<exists>cause. writeError (Post w (ticks s + (m - 1)) (batchAt n ts (j + (m - 1)))) = Some cause
                 \<and> e = SendingBatch (int ((j + (m - 1)) * n))
                         (min (int ((j + (m - 1)) * n + n)) (int (length ts))) cause))"
proof (induction "batchCount n (length ts) - j" arbitrary: j s)
  case 0
  then have "\<not> j < batchCount n (length ts)" by simp
  then have stop: "\<not> j * n < length ts" using batchCount_less [OF assms(2)] by blast
  show ?case
    by (rule exI [of _ 0], rule exI [of _ None], rule exI [of _ s])
       (simp add: loop_stop [OF stop] sentBatches_0 stop del: of_nat_mult)
next
  case (Suc d)
  then have lt: "j < batchCount n (length ts)" by simp
  then have run: "j * n < length ts" using batchCount_less [OF assms(2)] by blast
  let ?out = "Post w (ticks s) (batchAt n ts j)"
  let ?s1 = "snd (sendBatch w rw (batchAt n ts j) s)"
  note step = loop_step [OF assms run, of w s]
  show ?case
  proof (cases "writeError ?out")
    case (Some cause)
    from Some have res: "sendInBatchesFrom w rw ts (int (j * n)) s =
        Some (Returned (Some (SendingBatch (int (j * n))
                (min (int (j * n + n)) (int (length ts))) cause)), ?s1)"
      unfolding step by (simp only: case_prod_beta sendBatch_fst option.case)
    let ?E = "SendingBatch (int (j * n)) (min (int (j * n + n)) (int (length ts))) cause"
    have b1: "j + Suc 0 \<le> batchCount n (length ts) \<or> Suc 0 = 0"
      using lt by simp
    have b2: "ticks ?s1 = ticks s + Suc 0" "coordinator ?s1 = coordinator s"
      by (simp_all add: sendBatch_snd)
    have b3: "trace ?s1 = trace s @ sentBatches w n ts (ticks s) j (Suc 0)"
      by (simp add: sendBatch_snd sentBatches_Suc sentBatches_0)
    have b4: "\<forall>k. Suc k < Suc 0 \<longrightarrow> writeError (Post w (ticks s + k) (batchAt n ts (j + k))) = None"
      by simp
    have i0: "ticks s + (Suc 0 - 1) = ticks s" "j + (Suc 0 - 1) = j"
      by simp_all
    have b5: "case Some ?E of
            None \<Rightarrow> \<not> (j + Suc 0) * n < length ts
                    \<and> (\<forall>k < Suc 0. writeError (Post w (ticks s + k) (batchAt n ts (j + k))) = None)
          | Some e \<Rightarrow> 0 < Suc 0 \<and>
              (\<exists>cause. writeError (Post w (ticks s + (Suc 0 - 1)) (batchAt n ts (j + (Suc 0 - 1)))) = Some cause
                 \<and> e = SendingBatch (int ((j + (Suc 0 - 1)) * n))
                         (min (int ((j + (Suc 0 - 1)) * n + n)) (int (length ts))) cause)"
      unfolding option.case i0 using Some by blast
    show ?thesis
      by (rule exI [of _ "Suc 0"], rule exI [of _ "Some ?E"], rule exI [of _ ?s1])
         (use res b1 b2 b3 b4 b5 in \<open>simp only: simp_thms\<close>)
  next
    case None
    from None have res: "sendInBatchesFrom w rw ts (int (j * n)) s =
                 sendInBatchesFrom w rw ts (int (Suc j * n)) ?s1"
      unfolding step by (simp only: case_prod_beta sendBatch_fst option.case)
    have d: "d = batchCount n (length ts) - Suc j" using Suc.hyps(2) by simp
    from Suc.hyps(1) [OF d, of ?s1]
    obtain m r s' where ih:
      "sendInBatchesFrom w rw ts (int (Suc j * n)) ?s1 = Some (Returned r, s')"
      "Suc j + m \<le> batchCount n (length ts) \<or> m = 0"
      "ticks s' = ticks ?s1 + m" "coordinator s' = coordinator ?s1"
      "trace s' = trace ?s1 @ sentBatches w n ts (ticks ?s1) (Suc j) m"
      "\<forall>k. Suc k < m \<longrightarrow> writeError (Post w (ticks ?s1 + k) (batchAt n ts (Suc j + k))) = None"
      "case r of
            None \<Rightarrow> \<not> (Suc j + m) * n < length ts
                    \<and> (\<forall>k < m. writeError (Post w (ticks ?s1 + k) (batchAt n ts (Suc j + k))) = None)
          | Some e \<Rightarrow> 0 < m \<and>
              (\<exists>cause. writeError (Post w (ticks ?s1 + (m - 1)) (batchAt n ts (Suc j + (m - 1)))) = Some cause
                 \<and> e = SendingBatch (int ((Suc j + (m - 1)) * n))
                         (min (int ((Suc j + (m - 1)) * n + n)) (int (length ts))) cause)"
      by blast
    have all: "writeError (Post w (ticks s + k) (batchAt n ts (j + k))) = None"
      if "\<And>k'. k = Suc k' \<Longrightarrow> writeError (Post w (ticks ?s1 + k') (batchAt n ts (Suc j + k'))) = None"
      for k
      using that None by (cases k) (simp_all add: sendBatch_snd)
    have a1: "j + Suc m \<le> batchCount n (length ts) \<or> Suc m = 0"
      using ih(2) lt by auto
    have a2: "ticks s' = ticks s + Suc m" "coordinator s' = coordinator s"
      using ih(3,4) by (simp_all add: sendBatch_snd)
    have a3: "trace s' = trace s @ sentBatches w n ts (ticks s) j (Suc m)"
      using ih(5) by (simp add: sendBatch_snd sentBatches_Suc)
    have a4: "\<forall>k. Suc k < Suc m \<longrightarrow> writeError (Post w (ticks s + k) (batchAt n ts (j + k))) = None"
    proof (intro allI impI)
      fix k assume "Suc k < Suc m"
      then show "writeError (Post w (ticks s + k) (batchAt n ts (j + k))) = None"
        using ih(6) by (intro all) auto
    qed
    have a5: "case r of
            None \<Rightarrow> \<not> (j + Suc m) * n < length ts
                    \<and> (\<forall>k < Suc m. writeError (Post w (ticks s + k) (batchAt n ts (j + k))) = None)
          | Some e \<Rightarrow> 0 < Suc m \<and>
              (\<exists>cause. writeError (Post w (ticks s + (Suc m - 1)) (batchAt n ts (j + (Suc m - 1)))) = Some cause
                 \<and> e = SendingBatch (int ((j + (Suc m - 1)) * n))
                         (min (int ((j + (Suc m - 1)) * n + n)) (int (length ts))) cause)"
    proof (cases r)
      case None
      with ih(7) have stop: "\<not> (Suc j + m) * n < length ts"
        and ok: "\<forall>k < m. writeError (Post w (ticks ?s1 + k) (batchAt n ts (Suc j + k))) = None"
        by simp_all
      have "\<forall>k < Suc m. writeError (Post w (ticks s + k) (batchAt n ts (j + k))) = None"
      proof (intro allI impI)
        fix k assume "k < Suc m"
        then show "writeError (Post w (ticks s + k) (batchAt n ts (j + k))) = None"
          using ok by (intro all) auto
      qed
      with stop None show ?thesis by simp
    next
      case (Some e)
      from ih(7) have "0 < m \<and>
              (\<exists>cause. writeError (Post w (ticks ?s1 + (m - 1)) (batchAt n ts (Suc j + (m - 1)))) = Some cause
                 \<and> e = SendingBatch (int ((Suc j + (m - 1)) * n))
                         (min (int ((Suc j + (m - 1)) * n + n)) (int (length ts))) cause)"
        unfolding Some by (simp only: option.case)
      then obtain cause where m: "0 < m"
        and c: "writeError (Post w (ticks ?s1 + (m - 1)) (batchAt n ts (Suc j + (m - 1)))) = Some cause"
        and e: "e = SendingBatch (int ((Suc j + (m - 1)) * n))
                         (min (int ((Suc j + (m - 1)) * n + n)) (int (length ts))) cause"
        by blast
      from m have idx: "Suc j + (m - 1) = j + (Suc m - 1)"
        "ticks ?s1 + (m - 1) = ticks s + (Suc m - 1)"
        by (simp_all add: sendBatch_snd)
      have "0 < Suc m \<and>
              (\<exists>cause. writeError (Post w (ticks s + (Suc m - 1)) (batchAt n ts (j + (Suc m - 1)))) = Some cause
                 \<and> e = SendingBatch (int ((j + (Suc m - 1)) * n))
                         (min (int ((j + (Suc m - 1)) * n + n)) (int (length ts))) cause)"
        using c e unfolding idx by blast
      then show ?thesis
        unfolding Some by (simp only: option.case)
    qed
    show ?thesis
      by (rule exI [of _ "Suc m"], rule exI [of _ r], rule exI [of _ s'])
         (use res ih(1) a1 a2 a3 a4 a5 in \<open>simp only: simp_thms\<close>)
  qed
qed

text \<open>
  C6, as stated, fails for a writer whose batch size is not positive, which
  \<open>NewRemoteWriter\<close> accepts (the check is \<open>Validate\<close>'s, in another package): with a
  batch size of -1 the first slice has its end before its start and the call panics
  before anything is sent.
\<close>

theorem sendInBatches_batches_counterexample:
  "sendInBatches exampleWorld \<lparr>endpoint = ''http://localhost:9090/api/v1/write'', batchSize = - 1\<rparr>
     [seriesNamed ''up''] initialState
   = Some (Panicked SliceBoundsOutOfRange, initialState)"
  unfolding sendInBatches_def
  by (subst sendInBatchesFrom.simps) simp

text \<open>
  C6, amended. For a batch size of at least 1, every call of \<open>sendInBatches\<close> returns,
  without a panic. It attempts \<open>m\<close> batches, one request (one tick) each, and they are
  the first \<open>m\<close> batches of the list cut, in order, into consecutive batches of at most
  the batch size (the batches joined give the list back). All attempted batches but the
  last were sent without error. If the call returns nil, all batches were sent without
  error. If it returns an error, the last attempted batch failed, the error carries that
  batch's index range \<open>[(m-1) * batchSize, min(m * batchSize, len))\<close> and its cause, the
  batch was attempted once, and no later batch was attempted; the write events of the
  earlier batches stay in the trace.
\<close>

theorem sendInBatches_batches:
  assumes "1 \<le> batchSize rw"
  shows "\<exists>m r s'. sendInBatches w rw ts s = Some (Returned r, s')
      \<and> m \<le> batchCount (nat (batchSize rw)) (length ts)
      \<and> ticks s' = ticks s + m \<and> coordinator s' = coordinator s
      \<and> trace s' = trace s @ sentBatches w (nat (batchSize rw)) ts (ticks s) 0 m
      \<and> (\<forall>k. Suc k < m \<longrightarrow>
            writeError (Post w (ticks s + k) (batchAt (nat (batchSize rw)) ts k)) = None)
      \<and> (case r of
            None \<Rightarrow> m = batchCount (nat (batchSize rw)) (length ts)
                    \<and> (\<forall>k < m. writeError (Post w (ticks s + k)
                                     (batchAt (nat (batchSize rw)) ts k)) = None)
          | Some e \<Rightarrow> 0 < m \<and>
              (\<exists>cause. writeError (Post w (ticks s + (m - 1))
                                    (batchAt (nat (batchSize rw)) ts (m - 1))) = Some cause
                 \<and> e = SendingBatch (int ((m - 1) * nat (batchSize rw)))
                         (min (int ((m - 1) * nat (batchSize rw) + nat (batchSize rw)))
                              (int (length ts))) cause))
      \<and> concat (map (batchAt (nat (batchSize rw)) ts)
                  [0..<batchCount (nat (batchSize rw)) (length ts)]) = ts
      \<and> (\<forall>k. length (batchAt (nat (batchSize rw)) ts k) \<le> nat (batchSize rw))"
proof -
  let ?n = "nat (batchSize rw)"
  have n: "batchSize rw = int ?n" "0 < ?n" using assms by simp_all
  from sendInBatchesFrom_batches [OF n, of w ts 0 s]
  obtain m r s' where h:
    "sendInBatchesFrom w rw ts (int (0 * ?n)) s = Some (Returned r, s')"
    "0 + m \<le> batchCount ?n (length ts) \<or> m = 0"
    "ticks s' = ticks s + m" "coordinator s' = coordinator s"
    "trace s' = trace s @ sentBatches w ?n ts (ticks s) 0 m"
    "\<forall>k. Suc k < m \<longrightarrow> writeError (Post w (ticks s + k) (batchAt ?n ts (0 + k))) = None"
    "case r of
        None \<Rightarrow> \<not> (0 + m) * ?n < length ts
                \<and> (\<forall>k < m. writeError (Post w (ticks s + k) (batchAt ?n ts (0 + k))) = None)
      | Some e \<Rightarrow> 0 < m \<and>
          (\<exists>cause. writeError (Post w (ticks s + (m - 1)) (batchAt ?n ts (0 + (m - 1)))) = Some cause
             \<and> e = SendingBatch (int ((0 + (m - 1)) * ?n))
                     (min (int ((0 + (m - 1)) * ?n + ?n)) (int (length ts))) cause)"
    by blast
  have a1: "sendInBatches w rw ts s = Some (Returned r, s')"
    using h(1) by (simp add: sendInBatches_def)
  have a2: "m \<le> batchCount ?n (length ts)" using h(2) by auto
  have a6: "\<forall>k. Suc k < m \<longrightarrow> writeError (Post w (ticks s + k) (batchAt ?n ts k)) = None"
    using h(6) by simp
  have a7: "case r of
            None \<Rightarrow> m = batchCount ?n (length ts)
                    \<and> (\<forall>k < m. writeError (Post w (ticks s + k) (batchAt ?n ts k)) = None)
          | Some e \<Rightarrow> 0 < m \<and>
              (\<exists>cause. writeError (Post w (ticks s + (m - 1)) (batchAt ?n ts (m - 1))) = Some cause
                 \<and> e = SendingBatch (int ((m - 1) * ?n))
                         (min (int ((m - 1) * ?n + ?n)) (int (length ts))) cause)"
  proof (cases r)
    case None
    with h(7) have "\<not> m * ?n < length ts"
      and ok: "\<forall>k < m. writeError (Post w (ticks s + k) (batchAt ?n ts k)) = None"
      by simp_all
    then have "\<not> m < batchCount ?n (length ts)"
      using batchCount_less [OF n(2)] by blast
    with a2 ok None show ?thesis by simp
  next
    case (Some e)
    from h(7) show ?thesis
      unfolding Some by (simp only: option.case add_0)
  qed
  have a8: "concat (map (batchAt ?n ts) [0..<batchCount ?n (length ts)]) = ts"
    by (rule concat_batches [OF n(2)])
  have a9: "\<forall>k. length (batchAt ?n ts k) \<le> ?n"
    by (simp add: length_batchAt)
  show ?thesis
    by (rule exI [of _ m], rule exI [of _ r], rule exI [of _ s'])
       (use a1 a2 h(3,4,5) a6 a7 a8 a9 in \<open>simp only: simp_thms\<close>)
qed


lemma writeError_exampleWorld: "writeError (Post exampleWorld t batch) = None"
  by (simp add: writeError_def exampleWorld_def)

lemma writeError_failingWorld:
  "writeError (Post failingWorld t batch) = Some (RemoteWriteFailedWithStatus 500)"
  by (simp add: writeError_def failingWorld_def exampleWorld_def)

lemma requested_worlds: "requested (Post exampleWorld t batch)" "requested (Post failingWorld t batch)"
  by (simp_all add: requested_def failingWorld_def exampleWorld_def)


text \<open>
  Three series with a batch size of 2 in a world that accepts every write: two
  requests, of two series and of one. The same series with a batch size of 1 in a world
  that answers 500: the first batch is sent once, the call returns the error with the
  range 0-1, and the other two batches are not sent.
\<close>

theorem sendInBatches_batches_witness:
  "(\<exists>s'. sendInBatches exampleWorld \<lparr>endpoint = ''http://localhost:9090/api/v1/write'', batchSize = 2\<rparr>
            [seriesNamed ''a'', seriesNamed ''b'', seriesNamed ''c''] initialState
          = Some (Returned None, s')
        \<and> trace s' = [PostWrite [seriesNamed ''a'', seriesNamed ''b''], PostWrite [seriesNamed ''c'']])
   \<and> (\<exists>s'. sendInBatches failingWorld \<lparr>endpoint = ''http://localhost:9090/api/v1/write'', batchSize = 1\<rparr>
            [seriesNamed ''a'', seriesNamed ''b'', seriesNamed ''c''] initialState
          = Some (Returned (Some (SendingBatch 0 1 (RemoteWriteFailedWithStatus 500))), s')
        \<and> trace s' = [PostWrite [seriesNamed ''a'']])"
proof
  let ?rw = "\<lparr>endpoint = ''http://localhost:9090/api/v1/write'', batchSize = 2\<rparr>"
  let ?ts = "[seriesNamed ''a'', seriesNamed ''b'', seriesNamed ''c'']"
  have h: "1 \<le> batchSize ?rw" by simp
  from sendInBatches_batches [OF h, of exampleWorld ?ts initialState]
  obtain m r s' where
    res: "sendInBatches exampleWorld ?rw ?ts initialState = Some (Returned r, s')"
    and tr: "trace s' = trace initialState @ sentBatches exampleWorld (nat (batchSize ?rw)) ?ts (ticks initialState) 0 m"
    and cs: "case r of
            None \<Rightarrow> m = batchCount (nat (batchSize ?rw)) (length ?ts)
                    \<and> (\<forall>k < m. writeError (Post exampleWorld (ticks initialState + k)
                                     (batchAt (nat (batchSize ?rw)) ?ts k)) = None)
          | Some e \<Rightarrow> 0 < m \<and>
              (\<exists>cause. writeError (Post exampleWorld (ticks initialState + (m - 1))
                                    (batchAt (nat (batchSize ?rw)) ?ts (m - 1))) = Some cause
                 \<and> e = SendingBatch (int ((m - 1) * nat (batchSize ?rw)))
                         (min (int ((m - 1) * nat (batchSize ?rw) + nat (batchSize ?rw)))
                              (int (length ?ts))) cause)"
    by blast
  have r: "r = None"
    using cs by (cases r) (simp_all add: writeError_exampleWorld)
  with cs have m: "m = 2"
    by (simp add: batchCount_def)
  have "sentBatches exampleWorld 2 ?ts 0 0 2 =
          [PostWrite [seriesNamed ''a'', seriesNamed ''b''], PostWrite [seriesNamed ''c'']]"
    by (simp add: sentBatches_def requested_worlds batchAt_def numeral_2_eq_2)
  with tr m have "trace s' = [PostWrite [seriesNamed ''a'', seriesNamed ''b''], PostWrite [seriesNamed ''c'']]"
    by (simp add: initialState_def)
  with res r
  show "\<exists>s'. sendInBatches exampleWorld ?rw ?ts initialState = Some (Returned None, s')
        \<and> trace s' = [PostWrite [seriesNamed ''a'', seriesNamed ''b''], PostWrite [seriesNamed ''c'']]"
    by blast
next
  let ?rw = "\<lparr>endpoint = ''http://localhost:9090/api/v1/write'', batchSize = 1\<rparr>"
  let ?ts = "[seriesNamed ''a'', seriesNamed ''b'', seriesNamed ''c'']"
  have h: "1 \<le> batchSize ?rw" by simp
  from sendInBatches_batches [OF h, of failingWorld ?ts initialState]
  obtain m r s' where
    res: "sendInBatches failingWorld ?rw ?ts initialState = Some (Returned r, s')"
    and tr: "trace s' = trace initialState @ sentBatches failingWorld (nat (batchSize ?rw)) ?ts (ticks initialState) 0 m"
    and pre: "\<forall>k. Suc k < m \<longrightarrow>
            writeError (Post failingWorld (ticks initialState + k) (batchAt (nat (batchSize ?rw)) ?ts k)) = None"
    and cs: "case r of
            None \<Rightarrow> m = batchCount (nat (batchSize ?rw)) (length ?ts)
                    \<and> (\<forall>k < m. writeError (Post failingWorld (ticks initialState + k)
                                     (batchAt (nat (batchSize ?rw)) ?ts k)) = None)
          | Some e \<Rightarrow> 0 < m \<and>
              (\<exists>cause. writeError (Post failingWorld (ticks initialState + (m - 1))
                                    (batchAt (nat (batchSize ?rw)) ?ts (m - 1))) = Some cause
                 \<and> e = SendingBatch (int ((m - 1) * nat (batchSize ?rw)))
                         (min (int ((m - 1) * nat (batchSize ?rw) + nat (batchSize ?rw)))
                              (int (length ?ts))) cause)"
    by blast
  have m1: "m \<le> 1"
  proof (rule ccontr)
    assume "\<not> m \<le> 1"
    then have "Suc 0 < m" by simp
    with pre have "writeError (Post failingWorld (ticks initialState + 0)
                     (batchAt (nat (batchSize ?rw)) ?ts 0)) = None" by blast
    then show False by (simp add: writeError_failingWorld)
  qed
  have rn: "r \<noteq> None"
  proof
    assume "r = None"
    with cs have "m = batchCount (nat (batchSize ?rw)) (length ?ts)" by simp
    then have "m = 3" by (simp add: batchCount_def)
    with m1 show False by simp
  qed
  then obtain e where e: "r = Some e" by (cases r) auto
  from cs have m: "m = 1"
    unfolding e using m1 by simp
  from cs have "e = SendingBatch 0 1 (RemoteWriteFailedWithStatus 500)"
    unfolding e m by (simp add: writeError_failingWorld)
  moreover have "sentBatches failingWorld 1 ?ts 0 0 1 = [PostWrite [seriesNamed ''a'']]"
    by (simp add: sentBatches_def requested_worlds batchAt_def)
  with tr m have "trace s' = [PostWrite [seriesNamed ''a'']]"
    by (simp add: initialState_def)
  ultimately
  show "\<exists>s'. sendInBatches failingWorld ?rw ?ts initialState
          = Some (Returned (Some (SendingBatch 0 1 (RemoteWriteFailedWithStatus 500))), s')
        \<and> trace s' = [PostWrite [seriesNamed ''a'']]"
    using res e by blast
qed

section \<open>Dry run\<close>





















end
